theory Spec2Isabelle
  imports Main
begin

section \<open>Values, objects and the operators the script uses on them\<close>

text \<open>
  The script \<^verbatim>\<open>scripts/releases/set-version/index.js\<close> works on manifests that the
  registry obtained with \<^verbatim>\<open>JSON.parse\<close>, so the values it is given are JSON values. A
  string is the list of its bytes in UTF-8 (what is read from and written to the file;
  a string with an unpaired surrogate has no such list and is not represented).
  The script never computes with a number, so a number is held as the text that
  JavaScript prints for it. An object is the list of its own properties in property
  order; the lists that stand for an object have no key twice.

  Three more values can reach a manifest through the script, because every object
  inherits from \<^verbatim>\<open>Object.prototype\<close>: \<^verbatim>\<open>JFunction n\<close> is the built-in function that
  \<^verbatim>\<open>Object.prototype\<close> holds under the name \<^verbatim>\<open>n\<close>, \<^verbatim>\<open>JProto\<close> is the object
  \<^verbatim>\<open>Object.prototype\<close> itself, and \<^verbatim>\<open>JUndefined\<close> is \<^verbatim>\<open>undefined\<close>.
\<close>

datatype jsvalue =
    JUndefined
  | JNull
  | JBool bool
  | JNum string
  | JStr string
  | JArr "jsvalue list"
  | JObj "(string \<times> jsvalue) list"
  | JFunction string
  | JProto

type_synonym props = "(string \<times> jsvalue) list"

text \<open>
  \<^verbatim>\<open>TypeError\<close> is the exception JavaScript raises when the right operand of
  \<^verbatim>\<open>in\<close> is not an object. \<^verbatim>\<open>Unmodelled\<close> marks the inputs on which this
  development does not follow the program, all of them outside the type
  \<^verbatim>\<open>PackageJson\<close>: a \<^verbatim>\<open>name\<close> that is not a string, a dependency field that is an
  array or a function, and an assignment that would replace the prototype of an object.
  On every other input the functions below compute what the program computes.
  \<^verbatim>\<open>CollaboratorError\<close> is a rejection by the platform setter
  \<^verbatim>\<open>setReactNativeVersion\<close>, whose code is not part of the script.
\<close>

datatype error = TypeError | Unmodelled | CollaboratorError

text \<open>The own property of \<^verbatim>\<open>obj\<close> under \<^verbatim>\<open>key\<close>, \<^verbatim>\<open>None\<close> when there is none.\<close>

definition get_prop :: "(string \<times> 'a) list \<Rightarrow> string \<Rightarrow> 'a option" where
  "get_prop obj key = map_of obj key"

text \<open>\<^verbatim>\<open>CreateDataProperty\<close>: an own property keeps its place, a new one goes last.
  That is its place in property order for the keys the script creates: \<^verbatim>\<open>version\<close>,
  the inherited names, and the package names, which \<^verbatim>\<open>Object.fromEntries\<close>
  receives in property order.\<close>

fun set_prop :: "(string \<times> 'a) list \<Rightarrow> string \<Rightarrow> 'a \<Rightarrow> (string \<times> 'a) list" where
  "set_prop [] key v = [(key, v)]"
| "set_prop ((k, old) # obj) key v =
     (if k = key then (k, v) # obj else (k, old) # set_prop obj key v)"

definition Object_keys :: "(string \<times> 'a) list \<Rightarrow> string list" where
  "Object_keys obj = map fst obj"

definition Object_values :: "(string \<times> 'a) list \<Rightarrow> 'a list" where
  "Object_values obj = map snd obj"

definition Object_fromEntries :: "(string \<times> 'a) list \<Rightarrow> (string \<times> 'a) list" where
  "Object_fromEntries entries = fold (\<lambda>(k, v) obj. set_prop obj k v) entries []"

text \<open>The names every ordinary object inherits from \<^verbatim>\<open>Object.prototype\<close>. None of
  them is enumerable. \<^verbatim>\<open>__proto__\<close> is an accessor; the others are writable
  properties that hold functions.\<close>

definition Object_prototype_names :: "string list" where
  "Object_prototype_names =
     [''constructor'', ''__defineGetter__'', ''__defineSetter__'', ''hasOwnProperty'',
      ''__lookupGetter__'', ''__lookupSetter__'', ''isPrototypeOf'',
      ''propertyIsEnumerable'', ''toString'', ''valueOf'', ''__proto__'',
      ''toLocaleString'']"

text \<open>\<^verbatim>\<open>key in obj\<close> for an ordinary object \<^verbatim>\<open>obj\<close>: true for an own property and
  for an inherited one.\<close>

definition has_prop :: "string \<Rightarrow> (string \<times> 'a) list \<Rightarrow> bool" where
  "has_prop key obj \<longleftrightarrow> key \<in> set (Object_keys obj) \<or> key \<in> set Object_prototype_names"

text \<open>What an ordinary object that has no own property \<^verbatim>\<open>key\<close> answers to
  \<^verbatim>\<open>obj[key]\<close>.\<close>

definition inherited :: "string \<Rightarrow> jsvalue" where
  "inherited key =
     (if key = ''__proto__'' then JProto
      else if key \<in> set Object_prototype_names then JFunction key
      else JUndefined)"

text \<open>\<^verbatim>\<open>obj[key] = value\<close> for an ordinary object \<^verbatim>\<open>obj\<close>. An own property is
  replaced. Without one, the setter of \<^verbatim>\<open>__proto__\<close> runs, which does nothing when
  the value is neither an object nor \<^verbatim>\<open>null\<close>; any other key becomes a new own
  property, also where a writable property of that name is inherited.\<close>

definition assign_prop :: "props \<Rightarrow> string \<Rightarrow> jsvalue \<Rightarrow> error + props" where
  "assign_prop obj key v =
     (if key \<in> set (Object_keys obj) then Inr (set_prop obj key v)
      else if key = ''__proto__''
        then (case v of
                JUndefined \<Rightarrow> Inr obj
              | JBool b \<Rightarrow> Inr obj
              | JNum text \<Rightarrow> Inr obj
              | JStr s \<Rightarrow> Inr obj
              | _ \<Rightarrow> Inl Unmodelled)
      else Inr (set_prop obj key v))"

section \<open>\<^verbatim>\<open>JSON.stringify(value, null, space)\<close>\<close>

definition hex_digit :: "nat \<Rightarrow> char" where
  "hex_digit n = ''0123456789abcdef'' ! (n mod 16)"

definition backslash :: char where
  "backslash = CHR 0x5C"

definition dquote :: char where
  "dquote = CHR 0x22"

definition newline :: char where
  "newline = CHR 0x0A"

text \<open>One character of \<^verbatim>\<open>QuoteJSONString\<close>. A byte from \<^verbatim>\<open>0x80\<close> on belongs to a
  character beyond ASCII, which is copied.\<close>

definition quote_char :: "char \<Rightarrow> string" where
  "quote_char c =
     (if c = CHR 0x08 then [backslash, CHR ''b'']
      else if c = CHR 0x09 then [backslash, CHR ''t'']
      else if c = CHR 0x0A then [backslash, CHR ''n'']
      else if c = CHR 0x0C then [backslash, CHR ''f'']
      else if c = CHR 0x0D then [backslash, CHR ''r'']
      else if c = dquote then [backslash, dquote]
      else if c = backslash then [backslash, backslash]
      else if (of_char c :: nat) < 32
        then [backslash, CHR ''u'', CHR ''0'', CHR ''0'',
              hex_digit (of_char c div 16), hex_digit (of_char c)]
      else [c])"

definition QuoteJSONString :: "string \<Rightarrow> string" where
  "QuoteJSONString s = dquote # concat (map quote_char s) @ [dquote]"

fun join :: "string \<Rightarrow> string list \<Rightarrow> string" where
  "join sep [] = []"
| "join sep [x] = x"
| "join sep (x # y # ys) = x @ sep @ join sep (y # ys)"

text \<open>\<^verbatim>\<open>SerializeJSONProperty\<close> with \<^verbatim>\<open>SerializeJSONObject\<close> and
  \<^verbatim>\<open>SerializeJSONArray\<close>; \<^verbatim>\<open>indent\<close> is the indentation of the enclosing
  value, and \<^verbatim>\<open>None\<close> is the answer \<^verbatim>\<open>undefined\<close>, given for \<^verbatim>\<open>undefined\<close> and
  for a function. A property with that answer is left out of its object, an element with
  that answer is written \<^verbatim>\<open>null\<close>. \<^verbatim>\<open>Object.prototype\<close> has no enumerable property,
  and no value here has a callable \<^verbatim>\<open>toJSON\<close>.\<close>

fun SerializeJSONProperty :: "string \<Rightarrow> string \<Rightarrow> jsvalue \<Rightarrow> string option" where
  "SerializeJSONProperty gap indent JUndefined = None"
| "SerializeJSONProperty gap indent (JFunction n) = None"
| "SerializeJSONProperty gap indent JProto = Some ''{}''"
| "SerializeJSONProperty gap indent JNull = Some ''null''"
| "SerializeJSONProperty gap indent (JBool b) = Some (if b then ''true'' else ''false'')"
| "SerializeJSONProperty gap indent (JNum text) = Some text"
| "SerializeJSONProperty gap indent (JStr s) = Some (QuoteJSONString s)"
| "SerializeJSONProperty gap indent (JArr vs) =
     (let stepback = indent;
          indent = indent @ gap;
          partial = map (\<lambda>v. case SerializeJSONProperty gap indent v of
                                None \<Rightarrow> ''null''
                              | Some strP \<Rightarrow> strP) vs
      in Some (if partial = [] then ''[]''
               else if gap = [] then ''['' @ join '','' partial @ '']''
               else ''['' @ [newline] @ indent @ join ('','' @ [newline] @ indent) partial
                    @ [newline] @ stepback @ '']''))"
| "SerializeJSONProperty gap indent (JObj obj) =
     (let stepback = indent;
          indent = indent @ gap;
          partial = concat (map (\<lambda>(P, v). case SerializeJSONProperty gap indent v of
                                None \<Rightarrow> []
                              | Some strP \<Rightarrow>
                                  [QuoteJSONString P @ '':'' @ (if gap = [] then [] else '' '')
                                   @ strP]) obj)
      in Some (if partial = [] then ''{}''
               else if gap = [] then ''{'' @ join '','' partial @ ''}''
               else ''{'' @ [newline] @ indent @ join ('','' @ [newline] @ indent) partial
                    @ [newline] @ stepback @ ''}''))"

definition JSON_stringify :: "jsvalue \<Rightarrow> nat \<Rightarrow> string option" where
  "JSON_stringify v space = SerializeJSONProperty (replicate (min 10 space) CHR '' '') [] v"

text \<open>Line 51, \<^verbatim>\<open>JSON.stringify(packageJson, null, 2) + '\n'\<close>: \<^verbatim>\<open>+\<close> makes the
  text \<^verbatim>\<open>undefined\<close> of the answer \<^verbatim>\<open>undefined\<close>, which no object gets.\<close>

definition written_text :: "props \<Rightarrow> string" where
  "written_text packageJson =
     (case JSON_stringify (JObj packageJson) 2 of
        None \<Rightarrow> ''undefined''
      | Some text \<Rightarrow> text) @ [newline]"

section \<open>\<^verbatim>\<open>updatePackageJson\<close>\<close>

text \<open>\<^verbatim>\<open>$ReadOnly<{[string]: string}>\<close>: the own properties of
  \<^verbatim>\<open>newPackageVersions\<close>, in property order.\<close>

type_synonym versions = "(string \<times> string) list"

text \<open>\<^verbatim>\<open>newPackageVersions[key]\<close>.\<close>

definition read_version :: "versions \<Rightarrow> string \<Rightarrow> jsvalue" where
  "read_version newPackageVersions key =
     (case get_prop newPackageVersions key of
        Some v \<Rightarrow> JStr v
      | None \<Rightarrow> inherited key)"

text \<open>
  The call \<^verbatim>\<open>fs.writeFile(path.join(packagePath, 'package.json'), data, 'utf-8')\<close>.
  What \<^verbatim>\<open>path.join\<close> returns depends on the platform, so the file is named by the
  two arguments of \<^verbatim>\<open>path.join\<close>. The write replaces the whole file; a failure of
  the file system itself is not modelled.
\<close>

record file_write =
  join_dir :: string
  join_file :: string
  data :: string

text \<open>The property key of \<^verbatim>\<open>packageJson.name\<close>, as \<^verbatim>\<open>in\<close> and \<^verbatim>\<open>[]\<close> take it:
  \<^verbatim>\<open>undefined\<close> becomes the key \<^verbatim>\<open>"undefined"\<close>. (\<^verbatim>\<open>name\<close> is not an inherited
  name, so \<^verbatim>\<open>packageJson.name\<close> is the own property or \<^verbatim>\<open>undefined\<close>.)\<close>

definition packageName_key :: "props \<Rightarrow> error + string" where
  "packageName_key packageJson =
     (case get_prop packageJson ''name'' of
        None \<Rightarrow> Inr ''undefined''
      | Some v \<Rightarrow>
          (case v of JStr s \<Rightarrow> Inr s | JUndefined \<Rightarrow> Inr ''undefined'' | _ \<Rightarrow> Inl Unmodelled))"

text \<open>Lines 29 to 33: the package's own version.\<close>

definition update_version :: "versions \<Rightarrow> props \<Rightarrow> error + props" where
  "update_version newPackageVersions packageJson =
     (case packageName_key packageJson of
        Inl e \<Rightarrow> Inl e
      | Inr packageName \<Rightarrow>
          if has_prop packageName newPackageVersions
          then Inr (set_prop packageJson ''version'' (read_version newPackageVersions packageName))
          else Inr packageJson)"

text \<open>Lines 42 to 46: the loop \<^verbatim>\<open>for (const dependency in newPackageVersions)\<close> over
  the keys still to visit, on the value \<^verbatim>\<open>deps\<close>.\<close>

fun update_deps :: "versions \<Rightarrow> string list \<Rightarrow> jsvalue \<Rightarrow> error + jsvalue" where
  "update_deps newPackageVersions [] deps = Inr deps"
| "update_deps newPackageVersions (dependency # rest) deps =
     (case deps of
        JObj obj \<Rightarrow>
          if has_prop dependency obj
          then (case assign_prop obj dependency (read_version newPackageVersions dependency) of
                  Inl e \<Rightarrow> Inl e
                | Inr obj' \<Rightarrow> update_deps newPackageVersions rest (JObj obj'))
          else update_deps newPackageVersions rest deps
      | JArr vs \<Rightarrow> Inl Unmodelled
      | JFunction n \<Rightarrow> Inl Unmodelled
      | JProto \<Rightarrow> Inl Unmodelled
      | _ \<Rightarrow> Inl TypeError)"

text \<open>Lines 36 to 46: one round of the loop over the dependency fields. Neither field
  name is inherited, so \<^verbatim>\<open>packageJson[dependencyField]\<close> is the own property or
  \<^verbatim>\<open>undefined\<close>. \<^verbatim>\<open>deps\<close> is changed in place, which the value model writes back
  into the manifest.\<close>

definition update_dependencyField :: "versions \<Rightarrow> string \<Rightarrow> props \<Rightarrow> error + props" where
  "update_dependencyField newPackageVersions dependencyField packageJson =
     (case get_prop packageJson dependencyField of
        None \<Rightarrow> Inr packageJson
      | Some deps \<Rightarrow>
          if deps = JNull \<or> deps = JUndefined then Inr packageJson
          else (case update_deps newPackageVersions (Object_keys newPackageVersions) deps of
                  Inl e \<Rightarrow> Inl e
                | Inr deps' \<Rightarrow> Inr (set_prop packageJson dependencyField deps')))"

fun update_dependencyFields :: "versions \<Rightarrow> string list \<Rightarrow> props \<Rightarrow> error + props" where
  "update_dependencyFields newPackageVersions [] packageJson = Inr packageJson"
| "update_dependencyFields newPackageVersions (dependencyField # rest) packageJson =
     (case update_dependencyField newPackageVersions dependencyField packageJson of
        Inl e \<Rightarrow> Inl e
      | Inr packageJson' \<Rightarrow> update_dependencyFields newPackageVersions rest packageJson')"

text \<open>
  The result \<^verbatim>\<open>Inl TypeError\<close> is a promise rejected before any write, and
  \<^verbatim>\<open>Inl Unmodelled\<close> says that the input is one of those left out above. The
  result \<^verbatim>\<open>Inr (packageJson', w)\<close> is the write \<^verbatim>\<open>w\<close> together with the state
  \<^verbatim>\<open>packageJson'\<close> of the caller's object after the call: the function assigns to the
  object it was given. A manifest from \<^verbatim>\<open>JSON.parse\<close> is a tree, no two of its
  objects are the same object, so the state is a value. The state of the object after
  a rejection is not kept.
\<close>

definition updatePackageJson :: "string \<Rightarrow> props \<Rightarrow> versions \<Rightarrow> error + props \<times> file_write" where
  "updatePackageJson packagePath packageJson newPackageVersions =
     (case update_version newPackageVersions packageJson of
        Inl e \<Rightarrow> Inl e
      | Inr packageJson1 \<Rightarrow>
          (case update_dependencyFields newPackageVersions
                  [''dependencies'', ''devDependencies''] packageJson1 of
             Inl e \<Rightarrow> Inl e
           | Inr packageJson2 \<Rightarrow>
               Inr (packageJson2,
                    \<lparr>join_dir = packagePath, join_file = ''package.json'',
                     data = written_text packageJson2\<rparr>)))"

section \<open>\<^verbatim>\<open>setVersion\<close>\<close>

text \<open>\<^verbatim>\<open>PackageInfo\<close> and \<^verbatim>\<open>ProjectInfo\<close> of \<^verbatim>\<open>scripts/utils/monorepo\<close>.\<close>

record PackageInfo =
  name :: string
  path :: string
  packageJson :: props

type_synonym ProjectInfo = "(string \<times> PackageInfo) list"

text \<open>What one call of \<^verbatim>\<open>setVersion\<close> did: the arguments it gave to
  \<^verbatim>\<open>setReactNativeVersion\<close>, the calls of \<^verbatim>\<open>updatePackageJson\<close> in the order of
  \<^verbatim>\<open>packagesToUpdate\<close>, each with its result, and the rejection of the returned
  promise, if any. Where a result is \<^verbatim>\<open>Inl Unmodelled\<close> the record does not say
  what that call did.\<close>

record run =
  setter_version :: string
  setter_mapping :: versions
  rewriter_calls :: "(PackageInfo \<times> (error + props \<times> file_write)) list"
  rejected :: "error option"

text \<open>\<^verbatim>\<open>Promise.all\<close> rejects with the first rejection. The rejections modelled here
  happen while the promises are created, so the first one is the first of the list.\<close>

fun first_rejection :: "(error + 'a) list \<Rightarrow> error option" where
  "first_rejection [] = None"
| "first_rejection (Inl e # rs) = Some e"
| "first_rejection (Inr v # rs) = first_rejection rs"

text \<open>
  \<^verbatim>\<open>packages\<close> is the value of \<^verbatim>\<open>getPackages({includePrivate: false,
  includeReactNative: true})\<close>, and \<^verbatim>\<open>setReactNativeVersion\<close> tells whether the
  platform setter rejects (\<^verbatim>\<open>None\<close>: it resolves); both belong to modules outside the
  script.
\<close>

definition setVersion ::
    "(string \<Rightarrow> versions \<Rightarrow> error option) \<Rightarrow> ProjectInfo \<Rightarrow> string \<Rightarrow> bool \<Rightarrow> run" where
  "setVersion setReactNativeVersion packages version skipReactNativeVersion =
     (let newPackageVersions =
            Object_fromEntries (map (\<lambda>packageName. (packageName, version)) (Object_keys packages));
          rnVersion = (if skipReactNativeVersion then ''1000.0.0'' else version)
      in case setReactNativeVersion rnVersion newPackageVersions of
           Some e \<Rightarrow>
             \<lparr>setter_version = rnVersion, setter_mapping = newPackageVersions,
              rewriter_calls = [], rejected = Some e\<rparr>
         | None \<Rightarrow>
             (let packagesToUpdate =
                    filter (\<lambda>pkg. name pkg \<noteq> ''react-native'') (Object_values packages);
                  results =
                    map (\<lambda>pkg. (pkg, updatePackageJson (path pkg) (packageJson pkg) newPackageVersions))
                        packagesToUpdate
              in \<lparr>setter_version = rnVersion, setter_mapping = newPackageVersions,
                  rewriter_calls = results, rejected = first_rejection (map snd results)\<rparr>))"

text \<open>The files a run wrote, in the order of the calls.\<close>

definition writes :: "run \<Rightarrow> file_write list" where
  "writes r = concat (map (\<lambda>(pkg, res). case res of Inl e \<Rightarrow> [] | Inr (pj, w) \<Rightarrow> [w]) (rewriter_calls r))"

section \<open>Reading the manifests back\<close>

text \<open>The values \<^verbatim>\<open>JSON.parse\<close> returns: no function, no \<^verbatim>\<open>undefined\<close>, and no key
  twice in an object.\<close>

fun is_json :: "jsvalue \<Rightarrow> bool" where
  "is_json JNull = True"
| "is_json (JBool b) = True"
| "is_json (JNum text) = True"
| "is_json (JStr s) = True"
| "is_json (JArr vs) = list_all is_json vs"
| "is_json (JObj obj) = (distinct (map fst obj) \<and> list_all (\<lambda>(k, v). is_json v) obj)"
| "is_json JUndefined = False"
| "is_json (JFunction n) = False"
| "is_json JProto = False"

text \<open>\<^verbatim>\<open>JSON.parse(JSON.stringify(value))\<close> for a value that has a text: a property
  that \<^verbatim>\<open>JSON.stringify\<close> leaves out is not there, an element it writes as
  \<^verbatim>\<open>null\<close> is \<^verbatim>\<open>null\<close>, and \<^verbatim>\<open>Object.prototype\<close>, written \<^verbatim>\<open>{}\<close>, is an empty
  object.\<close>

fun reparse :: "jsvalue \<Rightarrow> jsvalue" where
  "reparse JNull = JNull"
| "reparse (JBool b) = JBool b"
| "reparse (JNum text) = JNum text"
| "reparse (JStr s) = JStr s"
| "reparse JProto = JObj []"
| "reparse (JArr vs) =
     JArr (map (\<lambda>v. if SerializeJSONProperty [] [] v = None then JNull else reparse v) vs)"
| "reparse (JObj obj) =
     JObj (map (\<lambda>(k, v). (k, reparse v))
             (filter (\<lambda>(k, v). SerializeJSONProperty [] [] v \<noteq> None) obj))"
| "reparse JUndefined = JUndefined"
| "reparse (JFunction n) = JFunction n"

definition reparse_props :: "props \<Rightarrow> props" where
  "reparse_props obj =
     map (\<lambda>(k, v). (k, reparse v)) (filter (\<lambda>(k, v). SerializeJSONProperty [] [] v \<noteq> None) obj)"

text \<open>
  Modelled from the spec: the package registry (\<^verbatim>\<open>getPackages\<close> of
  \<^verbatim>\<open>scripts/utils/monorepo\<close>, which is not among the sources) returns for each
  package its location and its parsed manifest. After the run \<^verbatim>\<open>r\<close> the file of a
  package whose rewrite resolved holds the text of the rewritten manifest, and the
  registry parses that text; every other package has the file it had.
\<close>

definition read_back_package :: "run \<Rightarrow> PackageInfo \<Rightarrow> PackageInfo" where
  "read_back_package r pkg =
     (case map_of (rewriter_calls r) pkg of
        None \<Rightarrow> pkg
      | Some res \<Rightarrow>
          (case res of
             Inl e \<Rightarrow> pkg
           | Inr (pj, w) \<Rightarrow> pkg\<lparr>packageJson := reparse_props pj\<rparr>))"

definition read_back :: "run \<Rightarrow> ProjectInfo \<Rightarrow> ProjectInfo" where
  "read_back r packages = map (\<lambda>(key, pkg). (key, read_back_package r pkg)) packages"

section \<open>A small source tree\<close>

text \<open>Three public packages: \<^verbatim>\<open>core\<close> depends on \<^verbatim>\<open>tool-a\<close> and on a package
  from outside the tree, and \<^verbatim>\<open>react-native\<close> is the package the script
  singles out.\<close>

definition core_manifest :: props where
  "core_manifest =
     [(''name'', JStr ''core''),
      (''version'', JStr ''0.1.0''),
      (''files'', JArr [JStr ''dist'']),
      (''dependencies'', JObj [(''left-pad'', JStr ''^1.3.0'')]),
      (''devDependencies'', JObj [(''tool-a'', JStr ''0.1.0'')])]"

definition tool_a_manifest :: props where
  "tool_a_manifest = [(''name'', JStr ''tool-a''), (''version'', JStr ''0.1.0'')]"

definition react_native_manifest :: props where
  "react_native_manifest = [(''name'', JStr ''react-native''), (''version'', JStr ''1000.0.0'')]"

definition core_package :: PackageInfo where
  "core_package = \<lparr>name = ''core'', path = ''/repo/packages/core'', packageJson = core_manifest\<rparr>"

definition react_native_package :: PackageInfo where
  "react_native_package =
     \<lparr>name = ''react-native'', path = ''/repo/packages/react-native'',
      packageJson = react_native_manifest\<rparr>"

definition tool_a_package :: PackageInfo where
  "tool_a_package =
     \<lparr>name = ''tool-a'', path = ''/repo/packages/tool-a'', packageJson = tool_a_manifest\<rparr>"

definition example_packages :: ProjectInfo where
  "example_packages =
     [(''core'', core_package), (''react-native'', react_native_package),
      (''tool-a'', tool_a_package)]"

text \<open>The versions \<^verbatim>\<open>setVersion\<close> builds from these packages and \<^verbatim>\<open>0.2.0\<close>.\<close>

definition example_versions :: versions where
  "example_versions = [(''core'', ''0.2.0''), (''react-native'', ''0.2.0''), (''tool-a'', ''0.2.0'')]"

text \<open>The manifests of \<^verbatim>\<open>core\<close> and \<^verbatim>\<open>tool-a\<close> after \<^verbatim>\<open>updatePackageJson\<close> with
  these versions, and the two writes.\<close>

definition core_rewritten :: props where
  "core_rewritten =
     [(''name'', JStr ''core''),
      (''version'', JStr ''0.2.0''),
      (''files'', JArr [JStr ''dist'']),
      (''dependencies'', JObj [(''left-pad'', JStr ''^1.3.0'')]),
      (''devDependencies'', JObj [(''tool-a'', JStr ''0.2.0'')])]"

definition tool_a_rewritten :: props where
  "tool_a_rewritten = [(''name'', JStr ''tool-a''), (''version'', JStr ''0.2.0'')]"

definition core_write :: file_write where
  "core_write =
     \<lparr>join_dir = ''/repo/packages/core'', join_file = ''package.json'',
      data = written_text core_rewritten\<rparr>"

definition tool_a_write :: file_write where
  "tool_a_write =
     \<lparr>join_dir = ''/repo/packages/tool-a'', join_file = ''package.json'',
      data = written_text tool_a_rewritten\<rparr>"

text \<open>A platform setter that resolves.\<close>

definition setter_resolves :: "string \<Rightarrow> versions \<Rightarrow> error option" where
  "setter_resolves version newPackageVersions = None"

text \<open>Versions for \<^verbatim>\<open>tool-a\<close> alone.\<close>

definition tool_a_only :: versions where
  "tool_a_only = [(''tool-a'', ''0.2.0'')]"

text \<open>A manifest without \<^verbatim>\<open>name\<close>, before and after \<^verbatim>\<open>updatePackageJson\<close> with
  \<^verbatim>\<open>example_versions\<close>.\<close>

definition nameless_manifest :: props where
  "nameless_manifest =
     [(''version'', JStr ''0.1.0''),
      (''devDependencies'', JObj [(''tool-a'', JStr ''0.1.0'')])]"

definition nameless_rewritten :: props where
  "nameless_rewritten =
     [(''version'', JStr ''0.1.0''),
      (''devDependencies'', JObj [(''tool-a'', JStr ''0.2.0'')])]"

text \<open>A tree in which the first package has a string where its dependencies should be,
  so that \<^verbatim>\<open>in\<close> raises on it.\<close>

definition broken_package :: PackageInfo where
  "broken_package =
     \<lparr>name = ''broken'', path = ''/repo/packages/broken'',
      packageJson = [(''name'', JStr ''broken''), (''dependencies'', JStr ''none'')]\<rparr>"

definition broken_packages :: ProjectInfo where
  "broken_packages = [(''broken'', broken_package), (''tool-a'', tool_a_package)]"

text \<open>The text written for \<^verbatim>\<open>core\<close>, line by line.\<close>

definition core_text :: string where
  "core_text = concat (map (\<lambda>line. line @ [newline])
     [''{'',
      ''  '' @ [dquote] @ ''name'' @ [dquote] @ '': '' @ [dquote] @ ''core'' @ [dquote] @ '','',
      ''  '' @ [dquote] @ ''version'' @ [dquote] @ '': '' @ [dquote] @ ''0.2.0'' @ [dquote] @ '','',
      ''  '' @ [dquote] @ ''files'' @ [dquote] @ '': ['',
      ''    '' @ [dquote] @ ''dist'' @ [dquote],
      ''  ],'',
      ''  '' @ [dquote] @ ''dependencies'' @ [dquote] @ '': {'',
      ''    '' @ [dquote] @ ''left-pad'' @ [dquote] @ '': '' @ [dquote] @ ''^1.3.0'' @ [dquote],
      ''  },'',
      ''  '' @ [dquote] @ ''devDependencies'' @ [dquote] @ '': {'',
      ''    '' @ [dquote] @ ''tool-a'' @ [dquote] @ '': '' @ [dquote] @ ''0.2.0'' @ [dquote],
      ''  }'',
      ''}''])"

text \<open>A tree with a package named \<^verbatim>\<open>constructor\<close>, the versions \<^verbatim>\<open>setVersion\<close> builds
  from it and \<^verbatim>\<open>0.2.0\<close>, and the manifest of \<^verbatim>\<open>core\<close> after
  \<^verbatim>\<open>updatePackageJson\<close> with these versions.\<close>

definition constructor_manifest :: props where
  "constructor_manifest = [(''name'', JStr ''constructor''), (''version'', JStr ''0.1.0'')]"

definition constructor_package :: PackageInfo where
  "constructor_package =
     \<lparr>name = ''constructor'', path = ''/repo/packages/constructor'',
      packageJson = constructor_manifest\<rparr>"

definition constructor_packages :: ProjectInfo where
  "constructor_packages =
     [(''constructor'', constructor_package), (''core'', core_package),
      (''tool-a'', tool_a_package)]"

definition constructor_versions :: versions where
  "constructor_versions =
     [(''constructor'', ''0.2.0''), (''core'', ''0.2.0''), (''tool-a'', ''0.2.0'')]"

definition core_with_constructor :: props where
  "core_with_constructor =
     [(''name'', JStr ''core''),
      (''version'', JStr ''0.2.0''),
      (''files'', JArr [JStr ''dist'']),
      (''dependencies'',
         JObj [(''left-pad'', JStr ''^1.3.0''), (''constructor'', JStr ''0.2.0'')]),
      (''devDependencies'',
         JObj [(''tool-a'', JStr ''0.2.0''), (''constructor'', JStr ''0.2.0'')])]"

text \<open>The manifest named \<^verbatim>\<open>constructor\<close> after \<^verbatim>\<open>updatePackageJson\<close> with versions
  that have no entry for it, and the text written.\<close>

definition constructor_rewritten :: props where
  "constructor_rewritten =
     [(''name'', JStr ''constructor''), (''version'', JFunction ''constructor'')]"

definition constructor_text :: string where
  "constructor_text = concat (map (\<lambda>line. line @ [newline])
     [''{'',
      ''  '' @ [dquote] @ ''name'' @ [dquote] @ '': '' @ [dquote] @ ''constructor'' @ [dquote],
      ''}''])"

definition constructor_write :: file_write where
  "constructor_write =
     \<lparr>join_dir = ''/repo/packages/constructor'', join_file = ''package.json'',
      data = constructor_text\<rparr>"

text \<open>The write for \<^verbatim>\<open>core\<close> in the tree with the package named \<^verbatim>\<open>constructor\<close>,
  and its text line by line.\<close>

definition core_with_constructor_write :: file_write where
  "core_with_constructor_write =
     \<lparr>join_dir = ''/repo/packages/core'', join_file = ''package.json'',
      data = written_text core_with_constructor\<rparr>"

definition core_with_constructor_text :: string where
  "core_with_constructor_text = concat (map (\<lambda>line. line @ [newline])
     [''{'',
      ''  '' @ [dquote] @ ''name'' @ [dquote] @ '': '' @ [dquote] @ ''core'' @ [dquote] @ '','',
      ''  '' @ [dquote] @ ''version'' @ [dquote] @ '': '' @ [dquote] @ ''0.2.0'' @ [dquote] @ '','',
      ''  '' @ [dquote] @ ''files'' @ [dquote] @ '': ['',
      ''    '' @ [dquote] @ ''dist'' @ [dquote],
      ''  ],'',
      ''  '' @ [dquote] @ ''dependencies'' @ [dquote] @ '': {'',
      ''    '' @ [dquote] @ ''left-pad'' @ [dquote] @ '': '' @ [dquote] @ ''^1.3.0'' @ [dquote] @ '','',
      ''    '' @ [dquote] @ ''constructor'' @ [dquote] @ '': '' @ [dquote] @ ''0.2.0'' @ [dquote],
      ''  },'',
      ''  '' @ [dquote] @ ''devDependencies'' @ [dquote] @ '': {'',
      ''    '' @ [dquote] @ ''tool-a'' @ [dquote] @ '': '' @ [dquote] @ ''0.2.0'' @ [dquote] @ '','',
      ''    '' @ [dquote] @ ''constructor'' @ [dquote] @ '': '' @ [dquote] @ ''0.2.0'' @ [dquote],
      ''  }'',
      ''}''])"

section \<open>Objects\<close>

lemma keys_set_prop:
  "Object_keys (set_prop obj k v) =
     (if k \<in> set (Object_keys obj) then Object_keys obj else Object_keys obj @ [k])"
  by (induction obj) (force simp: Object_keys_def)+

lemma get_set_prop:
  "get_prop (set_prop obj k v) k' = (if k' = k then Some v else get_prop obj k')"
  by (induction obj) (auto simp: get_prop_def)

lemma set_prop_same: "get_prop obj k = Some v \<Longrightarrow> set_prop obj k v = obj"
  by (induction obj) (auto simp: get_prop_def split: if_splits)

lemma set_prop_twice: "set_prop (set_prop obj k a) k b = set_prop obj k b"
  by (induction obj) auto

lemma set_prop_new: "k \<notin> set (Object_keys obj) \<Longrightarrow> set_prop obj k v = obj @ [(k, v)]"
  by (induction obj) (auto simp: Object_keys_def)

lemma filter_set_prop:
  "\<not> P k \<Longrightarrow> filter (\<lambda>(k', v'). P k') (set_prop obj k v) = filter (\<lambda>(k', v'). P k') obj"
  by (induction obj) auto

lemma get_prop_None_iff: "get_prop obj k = None \<longleftrightarrow> k \<notin> set (Object_keys obj)"
  by (simp add: get_prop_def Object_keys_def map_of_eq_None_iff)

lemma get_prop_Some_key: "get_prop obj k = Some v \<Longrightarrow> k \<in> set (Object_keys obj)"
  using get_prop_None_iff[of obj k] by auto

lemma read_version_own: "get_prop mp k = Some v \<Longrightarrow> read_version mp k = JStr v"
  by (simp add: read_version_def)

lemma read_version_key:
  "k \<in> set (Object_keys mp) \<Longrightarrow> \<exists>v. get_prop mp k = Some v \<and> read_version mp k = JStr v"
  using get_prop_None_iff[of mp k] by (auto simp: read_version_def)

lemma assign_prop_cases:
  assumes "assign_prop obj k v = Inr obj'"
  shows "(k \<in> set (Object_keys obj) \<or> k \<noteq> ''__proto__'') \<and> obj' = set_prop obj k v \<or>
         k \<notin> set (Object_keys obj) \<and> k = ''__proto__'' \<and> obj' = obj"
  using assms by (auto simp: assign_prop_def split: if_splits jsvalue.splits)

lemma assign_prop_string:
  "assign_prop obj k (JStr s) =
     Inr (if k \<in> set (Object_keys obj) \<or> k \<noteq> ''__proto__'' then set_prop obj k (JStr s) else obj)"
  by (simp add: assign_prop_def)

section \<open>The loop over the keys of the mapping\<close>

lemma update_deps_not_obj:
  "update_deps mp ks d = Inr d' \<Longrightarrow> (\<forall>obj. d \<noteq> JObj obj) \<Longrightarrow> ks = [] \<and> d' = d"
  by (cases ks; cases d) auto

text \<open>What the loop leaves in an object: under a key it visits that the object owns, or
  inherits as a writable property, the value the mapping answers; everything else as it
  was.\<close>

lemma update_deps_obj:
  "update_deps mp ks (JObj obj) = Inr d' \<Longrightarrow>
     \<exists>obj'. d' = JObj obj' \<and>
       (\<forall>k. get_prop obj' k =
              (if k \<in> set ks \<and>
                  (k \<in> set (Object_keys obj) \<or>
                   k \<in> set Object_prototype_names \<and> k \<noteq> ''__proto__'')
               then Some (read_version mp k) else get_prop obj k)) \<and>
       set (Object_keys obj) \<subseteq> set (Object_keys obj') \<and>
       (distinct (Object_keys obj) \<longrightarrow> distinct (Object_keys obj')) \<and>
       filter (\<lambda>(k, v). k \<notin> set ks) obj' = filter (\<lambda>(k, v). k \<notin> set ks) obj"
proof (induction ks arbitrary: obj)
  case Nil
  then show ?case by simp
next
  case (Cons k0 ks)
  have split: "\<And>l. filter (\<lambda>(k', v). k' \<notin> set (k0 # ks)) l =
      filter (\<lambda>(k', v). k' \<noteq> k0) (filter (\<lambda>(k, v). k \<notin> set ks) l)"
    by (auto intro: filter_cong)
  show ?case
  proof (cases "has_prop k0 obj")
    case False
    with Cons.prems have r: "update_deps mp ks (JObj obj) = Inr d'" by simp
    from False have nk: "k0 \<notin> set (Object_keys obj)" "k0 \<notin> set Object_prototype_names"
      by (simp_all add: has_prop_def)
    from Cons.IH[OF r] obtain obj' where o: "d' = JObj obj'"
      "\<forall>k. get_prop obj' k =
              (if k \<in> set ks \<and>
                  (k \<in> set (Object_keys obj) \<or>
                   k \<in> set Object_prototype_names \<and> k \<noteq> ''__proto__'')
               then Some (read_version mp k) else get_prop obj k)"
      "set (Object_keys obj) \<subseteq> set (Object_keys obj')"
      "distinct (Object_keys obj) \<longrightarrow> distinct (Object_keys obj')"
      "filter (\<lambda>(k, v). k \<notin> set ks) obj' = filter (\<lambda>(k, v). k \<notin> set ks) obj" by blast
    from o(5) have f: "filter (\<lambda>(k', v). k' \<notin> set (k0 # ks)) obj' =
        filter (\<lambda>(k', v). k' \<notin> set (k0 # ks)) obj"
      by (simp only: split)
    from o(1-4) nk f show ?thesis by auto
  next
    case True
    with Cons.prems obtain obj1 where
      a: "assign_prop obj k0 (read_version mp k0) = Inr obj1"
      and r: "update_deps mp ks (JObj obj1) = Inr d'"
      by (auto split: sum.splits)
    from Cons.IH[OF r] obtain obj' where o: "d' = JObj obj'"
      "\<forall>k. get_prop obj' k =
              (if k \<in> set ks \<and>
                  (k \<in> set (Object_keys obj1) \<or>
                   k \<in> set Object_prototype_names \<and> k \<noteq> ''__proto__'')
               then Some (read_version mp k) else get_prop obj1 k)"
      "set (Object_keys obj1) \<subseteq> set (Object_keys obj')"
      "distinct (Object_keys obj1) \<longrightarrow> distinct (Object_keys obj')"
      "filter (\<lambda>(k, v). k \<notin> set ks) obj' = filter (\<lambda>(k, v). k \<notin> set ks) obj1" by blast
    from assign_prop_cases[OF a] consider
      (set) "k0 \<in> set (Object_keys obj) \<or> k0 \<noteq> ''__proto__''"
            "obj1 = set_prop obj k0 (read_version mp k0)"
    | (ignored) "k0 \<notin> set (Object_keys obj)" "k0 = ''__proto__''" "obj1 = obj"
      by blast
    then show ?thesis
    proof cases
      case set
      note c = set(1) and e = set(2)
      have f1: "filter (\<lambda>(k', v). k' \<notin> set (k0 # ks)) obj1 =
          filter (\<lambda>(k', v). k' \<notin> set (k0 # ks)) obj"
        unfolding e using filter_set_prop[of "\<lambda>k'. k' \<notin> set (k0 # ks)" k0 obj] by simp
      from o(5) have "filter (\<lambda>(k', v). k' \<notin> set (k0 # ks)) obj' =
          filter (\<lambda>(k', v). k' \<notin> set (k0 # ks)) obj1"
        by (simp only: split)
      with f1 have f: "filter (\<lambda>(k', v). k' \<notin> set (k0 # ks)) obj' =
          filter (\<lambda>(k', v). k' \<notin> set (k0 # ks)) obj" by simp
      have keys: "Object_keys obj1 =
          (if k0 \<in> set (Object_keys obj) then Object_keys obj else Object_keys obj @ [k0])"
        unfolding e by (rule keys_set_prop)
      have g: "\<And>k. get_prop obj1 k = (if k = k0 then Some (read_version mp k0) else get_prop obj k)"
        unfolding e by (simp add: get_set_prop)
      from True c have own_or: "k0 \<in> set (Object_keys obj) \<or>
          k0 \<in> set Object_prototype_names \<and> k0 \<noteq> ''__proto__''"
        by (auto simp: has_prop_def)
      have "\<forall>k. get_prop obj' k =
              (if k \<in> set (k0 # ks) \<and>
                  (k \<in> set (Object_keys obj) \<or>
                   k \<in> set Object_prototype_names \<and> k \<noteq> ''__proto__'')
               then Some (read_version mp k) else get_prop obj k)"
        using o(2) keys g own_or by (auto split: if_splits)
      moreover have "set (Object_keys obj) \<subseteq> set (Object_keys obj')"
        using o(3) keys by (auto split: if_splits)
      moreover have "distinct (Object_keys obj) \<longrightarrow> distinct (Object_keys obj')"
        using o(4) keys by (auto split: if_splits)
      ultimately show ?thesis using o(1) f by blast
    next
      case ignored
      note c = ignored(1,2) and e = ignored(3)
      from o(5) e have f: "filter (\<lambda>(k', v). k' \<notin> set (k0 # ks)) obj' =
          filter (\<lambda>(k', v). k' \<notin> set (k0 # ks)) obj"
        by (simp only: split)
      have "\<forall>k. get_prop obj' k =
              (if k \<in> set (k0 # ks) \<and>
                  (k \<in> set (Object_keys obj) \<or>
                   k \<in> set Object_prototype_names \<and> k \<noteq> ''__proto__'')
               then Some (read_version mp k) else get_prop obj k)"
        using o(2) c e by auto
      with o(1,3,4) e f show ?thesis by blast
    qed
  qed
qed


section \<open>The stages of the rewriter\<close>

lemma update_dependencyField_cases:
  assumes "update_dependencyField mp f pj = Inr pj'"
  shows "(get_prop pj f = None \<and> pj' = pj) \<or>
         (\<exists>d d'. get_prop pj f = Some d \<and> pj' = set_prop pj f d' \<and>
            (((d = JNull \<or> d = JUndefined) \<and> d' = d) \<or>
             (d \<noteq> JNull \<and> d \<noteq> JUndefined \<and>
              update_deps mp (Object_keys mp) d = Inr d')))"
proof (cases "get_prop pj f")
  case None
  with assms show ?thesis by (simp add: update_dependencyField_def)
next
  case (Some d)
  show ?thesis
  proof (cases "d = JNull \<or> d = JUndefined")
    case True
    with Some assms have "pj' = pj" by (auto simp: update_dependencyField_def)
    with Some True show ?thesis by (auto simp: set_prop_same)
  next
    case False
    with Some assms show ?thesis
      by (auto simp: update_dependencyField_def split: sum.splits)
  qed
qed

lemma update_dependencyField_other:
  "update_dependencyField mp f pj = Inr pj' \<Longrightarrow> g \<noteq> f \<Longrightarrow> get_prop pj' g = get_prop pj g"
  by (drule update_dependencyField_cases) (auto simp: get_set_prop)

lemma update_dependencyField_obj:
  assumes "update_dependencyField mp f pj = Inr pj'" and "get_prop pj f = Some (JObj obj)"
  shows "\<exists>obj'. get_prop pj' f = Some (JObj obj') \<and> pj' = set_prop pj f (JObj obj') \<and>
       update_deps mp (Object_keys mp) (JObj obj) = Inr (JObj obj')"
proof -
  from update_dependencyField_cases[OF assms(1)] assms(2)
  obtain d' where d: "pj' = set_prop pj f d'"
      "update_deps mp (Object_keys mp) (JObj obj) = Inr d'"
    by auto
  from update_deps_obj[OF d(2)] d show ?thesis
    by (auto simp: get_set_prop)
qed

lemma update_dependencyField_not_obj:
  assumes "update_dependencyField mp f pj = Inr pj'" and "\<forall>obj. get_prop pj f \<noteq> Some (JObj obj)"
  shows "pj' = pj"
proof -
  from update_dependencyField_cases[OF assms(1)] consider
    "pj' = pj"
  | d d' where "get_prop pj f = Some d" "pj' = set_prop pj f d'" "d' = d"
  | d d' where "get_prop pj f = Some d" "pj' = set_prop pj f d'"
      "update_deps mp (Object_keys mp) d = Inr d'"
    by blast
  then show ?thesis
  proof cases
    case 3
    with assms(2) have "\<forall>obj. d \<noteq> JObj obj" by auto
    from update_deps_not_obj[OF 3(3) this] 3(1,2) show ?thesis by (simp add: set_prop_same)
  qed (simp_all add: set_prop_same)
qed

lemma update_version_cases:
  assumes "update_version mp pj = Inr pj1"
  shows "\<exists>n. packageName_key pj = Inr n \<and>
           (has_prop n mp \<and> pj1 = set_prop pj ''version'' (read_version mp n) \<or>
            \<not> has_prop n mp \<and> pj1 = pj)"
  using assms
  by (auto simp: update_version_def split: sum.splits if_splits)

lemma update_version_other:
  assumes "update_version mp pj = Inr pj1" and "g \<noteq> ''version''"
  shows "get_prop pj1 g = get_prop pj g"
  using update_version_cases[OF assms(1)] assms(2) by (auto simp: get_set_prop)

lemma updatePackageJson_stages:
  assumes "updatePackageJson p pj mp = Inr (pj', w)"
  shows "\<exists>pj1 pj2. update_version mp pj = Inr pj1 \<and>
           update_dependencyField mp ''dependencies'' pj1 = Inr pj2 \<and>
           update_dependencyField mp ''devDependencies'' pj2 = Inr pj' \<and>
           w = \<lparr>join_dir = p, join_file = ''package.json'', data = written_text pj'\<rparr>"
  using assms
  by (auto simp: updatePackageJson_def split: sum.splits)

lemma updatePackageJson_dep_obj:
  assumes "updatePackageJson p pj mp = Inr (pj', w)"
    and "f = ''dependencies'' \<or> f = ''devDependencies''"
    and "get_prop pj f = Some (JObj obj)"
  shows "\<exists>obj'. get_prop pj' f = Some (JObj obj') \<and>
       update_deps mp (Object_keys mp) (JObj obj) = Inr (JObj obj')"
proof -
  from updatePackageJson_stages[OF assms(1)] obtain pj1 pj2 where
    s: "update_version mp pj = Inr pj1"
       "update_dependencyField mp ''dependencies'' pj1 = Inr pj2"
       "update_dependencyField mp ''devDependencies'' pj2 = Inr pj'" by blast
  have g1: "get_prop pj1 f = Some (JObj obj)"
    using update_version_other[OF s(1), of f] assms(2,3) by auto
  from assms(2) show ?thesis
  proof
    assume f: "f = ''dependencies''"
    have "get_prop pj' f = get_prop pj2 f"
      using update_dependencyField_other[OF s(3), of f] f by simp
    with update_dependencyField_obj[OF s(2)] g1 f show ?thesis by auto
  next
    assume f: "f = ''devDependencies''"
    have "get_prop pj2 f = get_prop pj1 f"
      using update_dependencyField_other[OF s(2), of f] f by simp
    with update_dependencyField_obj[OF s(3)] g1 f show ?thesis by auto
  qed
qed

section \<open>When the rewriter resolves\<close>

lemma update_deps_total:
  "set ks \<subseteq> set (Object_keys mp) \<Longrightarrow> \<exists>d'. update_deps mp ks (JObj obj) = Inr d'"
proof (induction ks arbitrary: obj)
  case Nil
  then show ?case by simp
next
  case (Cons k ks)
  from Cons.prems obtain v where v: "read_version mp k = JStr v"
    using read_version_key[of k mp] by auto
  from Cons have "\<And>obj. \<exists>d'. update_deps mp ks (JObj obj) = Inr d'" by simp
  then show ?case by (simp add: v assign_prop_string)
qed

lemma update_dependencyField_total:
  assumes "get_prop pj f = None \<or> get_prop pj f = Some JNull \<or> (\<exists>deps. get_prop pj f = Some (JObj deps))"
  shows "\<exists>pj'. update_dependencyField mp f pj = Inr pj'"
proof -
  have t: "\<And>deps. \<exists>d'. update_deps mp (Object_keys mp) (JObj deps) = Inr d'"
    using update_deps_total[OF subset_refl] by blast
  from assms show ?thesis
  proof (elim disjE exE)
    fix deps assume g: "get_prop pj f = Some (JObj deps)"
    from t obtain d' where "update_deps mp (Object_keys mp) (JObj deps) = Inr d'" by blast
    with g show ?thesis by (simp add: update_dependencyField_def)
  qed (simp_all add: update_dependencyField_def)
qed

lemma update_version_resolves:
  "packageName_key pj = Inr n \<Longrightarrow> \<exists>pj1. update_version mp pj = Inr pj1"
  by (simp add: update_version_def)

text \<open>On a manifest whose \<^verbatim>\<open>name\<close> is a string or absent and whose dependency fields
  are absent, \<^verbatim>\<open>null\<close> or objects, the rewriter resolves.\<close>

lemma updatePackageJson_resolves_after:
  assumes "update_version mp pj = Inr pj1"
    and "\<forall>f\<in>{''dependencies'', ''devDependencies''}.
           get_prop pj f = None \<or> get_prop pj f = Some JNull \<or>
           (\<exists>deps. get_prop pj f = Some (JObj deps))"
  shows "\<exists>pj' w. updatePackageJson p pj mp = Inr (pj', w)"
proof -
  have g1: "get_prop pj1 f = get_prop pj f" if "f \<in> {''dependencies'', ''devDependencies''}" for f
    using update_version_other[OF assms(1), of f] that by auto
  from assms(2) g1 have "get_prop pj1 ''dependencies'' = None \<or>
      get_prop pj1 ''dependencies'' = Some JNull \<or>
      (\<exists>deps. get_prop pj1 ''dependencies'' = Some (JObj deps))" by simp
  from update_dependencyField_total[OF this] obtain pj2 where
    2: "update_dependencyField mp ''dependencies'' pj1 = Inr pj2" by blast
  have "get_prop pj2 ''devDependencies'' = get_prop pj ''devDependencies''"
    using update_dependencyField_other[OF 2, of "''devDependencies''"] g1 by simp
  with assms(2) have "get_prop pj2 ''devDependencies'' = None \<or>
      get_prop pj2 ''devDependencies'' = Some JNull \<or>
      (\<exists>deps. get_prop pj2 ''devDependencies'' = Some (JObj deps))" by simp
  from update_dependencyField_total[OF this] obtain pj3 where
    3: "update_dependencyField mp ''devDependencies'' pj2 = Inr pj3" by blast
  from assms(1) 2 3 show ?thesis by (simp add: updatePackageJson_def)
qed

lemma updatePackageJson_resolves:
  assumes "get_prop pj ''name'' = None \<or> (\<exists>n. get_prop pj ''name'' = Some (JStr n))"
    and "\<forall>f\<in>{''dependencies'', ''devDependencies''}.
           get_prop pj f = None \<or> get_prop pj f = Some JNull \<or>
           (\<exists>deps. get_prop pj f = Some (JObj deps))"
  shows "\<exists>pj' w. updatePackageJson p pj mp = Inr (pj', w)"
proof -
  from assms(1) obtain n where "packageName_key pj = Inr n"
    by (auto simp: packageName_key_def)
  from update_version_resolves[OF this] obtain pj1 where
    "update_version mp pj = Inr pj1" by blast
  from updatePackageJson_resolves_after[OF this assms(2)] show ?thesis .
qed

lemma version_after:
  assumes "updatePackageJson p pj mp = Inr (pj', w)"
  shows "\<exists>n. packageName_key pj = Inr n \<and>
           (has_prop n mp \<longrightarrow> get_prop pj' ''version'' = Some (read_version mp n)) \<and>
           (\<not> has_prop n mp \<longrightarrow> get_prop pj' ''version'' = get_prop pj ''version'')"
proof -
  from updatePackageJson_stages[OF assms(1)] obtain pj1 pj2 where
    s: "update_version mp pj = Inr pj1"
       "update_dependencyField mp ''dependencies'' pj1 = Inr pj2"
       "update_dependencyField mp ''devDependencies'' pj2 = Inr pj'" by blast
  from s(2,3) have "get_prop pj' ''version'' = get_prop pj1 ''version''"
    by (simp add: update_dependencyField_other)
  with update_version_cases[OF s(1)] show ?thesis
    by (auto simp: get_set_prop)
qed

section \<open>The rewriter on the small source tree\<close>

lemma core_run:
  "updatePackageJson ''/repo/packages/core'' core_manifest example_versions =
     Inr (core_rewritten, core_write)"
  by code_simp

lemma core_rewritten_run:
  "updatePackageJson ''/repo/packages/core'' core_rewritten example_versions =
     Inr (core_rewritten, core_write)"
  by code_simp

lemma core_text: "data core_write = core_text"
  by code_simp

section \<open>The driver\<close>

lemma fold_set_prop_get:
  "get_prop (fold (\<lambda>(k, v) obj. set_prop obj k v) (map (\<lambda>k. (k, c)) ks) acc) k =
     (if k \<in> set ks then Some c else get_prop acc k)"
  by (induction ks arbitrary: acc) (auto simp: get_set_prop)

lemma fold_set_prop_keys:
  "set (Object_keys (fold (\<lambda>(k, v) obj. set_prop obj k v) (map (\<lambda>k. (k, c)) ks) acc)) =
     set (Object_keys acc) \<union> set ks"
  by (induction ks arbitrary: acc) (auto simp: keys_set_prop)

lemma fromEntries_const_get:
  "get_prop (Object_fromEntries (map (\<lambda>k. (k, c)) ks)) k = (if k \<in> set ks then Some c else None)"
  unfolding Object_fromEntries_def fold_set_prop_get by (simp add: get_prop_def)

lemma fromEntries_const_keys:
  "set (Object_keys (Object_fromEntries (map (\<lambda>k. (k, c)) ks))) = set ks"
  unfolding Object_fromEntries_def fold_set_prop_keys by (simp add: Object_keys_def)

lemma setter_mapping_setVersion:
  "setter_mapping (setVersion setRN packages version skip) =
     Object_fromEntries (map (\<lambda>packageName. (packageName, version)) (Object_keys packages))"
  by (simp add: setVersion_def Let_def split: option.splits)

lemma setter_version_setVersion:
  "setter_version (setVersion setRN packages version skip) = (if skip then ''1000.0.0'' else version)"
  by (simp add: setVersion_def Let_def split: option.splits)

lemma rewriter_calls_setVersion:
  "rewriter_calls (setVersion setRN packages version skip) =
     (case setRN (if skip then ''1000.0.0'' else version)
             (Object_fromEntries (map (\<lambda>packageName. (packageName, version)) (Object_keys packages))) of
        Some e \<Rightarrow> []
      | None \<Rightarrow>
          map (\<lambda>pkg. (pkg, updatePackageJson (path pkg) (packageJson pkg)
                  (Object_fromEntries (map (\<lambda>packageName. (packageName, version)) (Object_keys packages)))))
              (filter (\<lambda>pkg. name pkg \<noteq> ''react-native'') (Object_values packages)))"
  by (simp add: setVersion_def Let_def split: option.splits)

lemma writes_iff:
  "w \<in> set (writes r) \<longleftrightarrow> (\<exists>pkg pj. (pkg, Inr (pj, w)) \<in> set (rewriter_calls r))"
  by (auto simp: writes_def split: sum.splits)

lemma example_run:
  "setVersion setter_resolves example_packages ''0.2.0'' True =
     \<lparr>setter_version = ''1000.0.0'', setter_mapping = example_versions,
      rewriter_calls = [(core_package, Inr (core_rewritten, core_write)),
                        (tool_a_package, Inr (tool_a_rewritten, tool_a_write))],
      rejected = None\<rparr>"
  by code_simp

lemma broken_run:
  "setVersion setter_resolves broken_packages ''0.2.0'' False =
     \<lparr>setter_version = ''0.2.0'',
      setter_mapping = [(''broken'', ''0.2.0''), (''tool-a'', ''0.2.0'')],
      rewriter_calls = [(broken_package, Inl TypeError),
                        (tool_a_package, Inr (tool_a_rewritten, tool_a_write))],
      rejected = Some TypeError\<rparr>"
  by code_simp

section \<open>The written text\<close>

lemma join_indent:
  "xs \<noteq> [] \<Longrightarrow> i @ join (sep @ i) xs = join sep (map (\<lambda>x. i @ x) xs)"
  by (induction sep xs rule: join.induct) auto

lemma stringify_gap:
  "JSON_stringify v 2 = SerializeJSONProperty ''  '' [] v"
proof -
  have "replicate (min 10 2) CHR '' '' = ''  ''" by (simp add: numeral_2_eq_2)
  then show ?thesis unfolding JSON_stringify_def by simp
qed

lemma serialize_object_layout:
  assumes "members =
     concat (map (\<lambda>(k, v). case SerializeJSONProperty ''  '' (i @ ''  '') v of
                              None \<Rightarrow> []
                            | Some strP \<Rightarrow> [(i @ ''  '') @ QuoteJSONString k @ '': '' @ strP]) obj)"
    and "members \<noteq> []"
  shows "SerializeJSONProperty ''  '' i (JObj obj) =
     Some (''{'' @ [newline] @ join ('','' @ [newline]) members @ [newline] @ i @ ''}'')"
proof -
  let ?partial = "concat (map (\<lambda>(P, v). case SerializeJSONProperty ''  '' (i @ ''  '') v of
                              None \<Rightarrow> []
                            | Some strP \<Rightarrow> [QuoteJSONString P @ '':'' @ '' '' @ strP]) obj)"
  have m: "members = map (\<lambda>x. (i @ ''  '') @ x) ?partial"
    unfolding assms(1) map_concat
    by (rule arg_cong[where f = concat])
       (auto simp: comp_def split: option.splits)
  with assms(2) have ne: "?partial \<noteq> []" by auto
  have "(i @ ''  '') @ join (('','' @ [newline]) @ (i @ ''  '')) ?partial =
        join ('','' @ [newline]) (map (\<lambda>x. (i @ ''  '') @ x) ?partial)"
    using ne by (rule join_indent)
  with m ne show ?thesis by (simp add: Let_def)
qed

lemma serialize_array_layout:
  assumes "vs \<noteq> []"
  shows "SerializeJSONProperty ''  '' i (JArr vs) =
     Some (''['' @ [newline]
     @ join ('','' @ [newline])
         (map (\<lambda>v. (i @ ''  '') @ (case SerializeJSONProperty ''  '' (i @ ''  '') v of
                                        None \<Rightarrow> ''null''
                                      | Some strP \<Rightarrow> strP)) vs)
     @ [newline] @ i @ '']'')"
proof -
  let ?partial = "map (\<lambda>v. case SerializeJSONProperty ''  '' (i @ ''  '') v of
                                None \<Rightarrow> ''null''
                              | Some strP \<Rightarrow> strP) vs"
  have "(i @ ''  '') @ join (('','' @ [newline]) @ (i @ ''  '')) ?partial =
        join ('','' @ [newline]) (map (\<lambda>x. (i @ ''  '') @ x) ?partial)"
    using assms by (intro join_indent) simp
  then show ?thesis using assms by (simp add: Let_def comp_def)
qed

lemma serialize_object_closes:
  "\<exists>body. SerializeJSONProperty gap i (JObj obj) = Some (body @ ''}'')"
proof -
  let ?partial = "concat (map (\<lambda>(P, v). case SerializeJSONProperty gap (i @ gap) v of
                              None \<Rightarrow> []
                            | Some strP \<Rightarrow>
                                [QuoteJSONString P @ '':'' @ (if gap = [] then [] else '' '')
                                 @ strP]) obj)"
  let ?body = "if ?partial = [] then ''{''
               else if gap = [] then ''{'' @ join '','' ?partial
               else ''{'' @ [newline] @ (i @ gap) @ join ('','' @ [newline] @ (i @ gap)) ?partial
                    @ [newline] @ i"
  have "SerializeJSONProperty gap i (JObj obj) = Some (?body @ ''}'')"
    by (simp add: Let_def)
  then show ?thesis by blast
qed

section \<open>Rewriting a rewritten manifest\<close>

lemma update_deps_fixed:
  assumes "set ks \<subseteq> set (Object_keys mp)"
    and "\<forall>k\<in>set ks. k \<in> set (Object_keys obj) \<longrightarrow> get_prop obj k = Some (read_version mp k)"
    and "\<forall>k\<in>set ks. k \<in> set Object_prototype_names \<and> k \<noteq> ''__proto__'' \<longrightarrow>
           k \<in> set (Object_keys obj)"
  shows "update_deps mp ks (JObj obj) = Inr (JObj obj)"
  using assms
proof (induction ks)
  case Nil
  then show ?case by simp
next
  case (Cons k ks)
  from Cons.prems(1) obtain v where v: "read_version mp k = JStr v"
    using read_version_key[of k mp] by auto
  from Cons have rest: "update_deps mp ks (JObj obj) = Inr (JObj obj)" by simp
  show ?case
  proof (cases "k \<in> set (Object_keys obj)")
    case True
    with Cons.prems(2) v have "set_prop obj k (JStr v) = obj" by (simp add: set_prop_same)
    with True rest v show ?thesis by (simp add: has_prop_def assign_prop_string)
  next
    case False
    with Cons.prems(3) have "k \<notin> set Object_prototype_names \<or> k = ''__proto__''" by auto
    with False rest v show ?thesis by (auto simp: has_prop_def assign_prop_string)
  qed
qed

lemma update_deps_idem:
  assumes "update_deps mp (Object_keys mp) d = Inr d'"
  shows "update_deps mp (Object_keys mp) d' = Inr d'"
proof (cases "\<exists>obj. d = JObj obj")
  case False
  with update_deps_not_obj[OF assms] show ?thesis by auto
next
  case True
  then obtain obj where d: "d = JObj obj" by blast
  from update_deps_obj[OF assms[unfolded d]] obtain obj' where o: "d' = JObj obj'"
    "\<forall>k. get_prop obj' k =
       (if k \<in> set (Object_keys mp) \<and>
           (k \<in> set (Object_keys obj) \<or> k \<in> set Object_prototype_names \<and> k \<noteq> ''__proto__'')
        then Some (read_version mp k) else get_prop obj k)"
    by blast
  have own: "\<forall>k\<in>set (Object_keys mp). k \<in> set (Object_keys obj') \<longrightarrow>
      get_prop obj' k = Some (read_version mp k)"
  proof (intro ballI impI)
    fix k assume k: "k \<in> set (Object_keys mp)" "k \<in> set (Object_keys obj')"
    show "get_prop obj' k = Some (read_version mp k)"
    proof (cases "k \<in> set (Object_keys obj) \<or> k \<in> set Object_prototype_names \<and> k \<noteq> ''__proto__''")
      case True
      with o(2) k(1) show ?thesis by simp
    next
      case False
      then have "get_prop obj' k = get_prop obj k" using o(2)[rule_format, of k] by auto
      moreover from False have "get_prop obj k = None" by (simp add: get_prop_None_iff)
      ultimately have "k \<notin> set (Object_keys obj')" by (simp add: get_prop_None_iff)
      with k(2) show ?thesis by simp
    qed
  qed
  have inh: "\<forall>k\<in>set (Object_keys mp). k \<in> set Object_prototype_names \<and> k \<noteq> ''__proto__'' \<longrightarrow>
      k \<in> set (Object_keys obj')"
  proof (intro ballI impI)
    fix k assume "k \<in> set (Object_keys mp)" "k \<in> set Object_prototype_names \<and> k \<noteq> ''__proto__''"
    with o(2) have "get_prop obj' k = Some (read_version mp k)" by simp
    then show "k \<in> set (Object_keys obj')" by (rule get_prop_Some_key)
  qed
  from update_deps_fixed[OF subset_refl own inh] o(1) show ?thesis by simp
qed

lemma update_dependencyField_idem:
  assumes "update_dependencyField mp f pj = Inr pj'"
  shows "update_dependencyField mp f pj' = Inr pj'"
proof -
  from update_dependencyField_cases[OF assms] consider
    (absent) "get_prop pj f = None" "pj' = pj"
  | (null) d where "get_prop pj f = Some d" "pj' = set_prop pj f d" "d = JNull \<or> d = JUndefined"
  | (deps) d d' where "get_prop pj f = Some d" "pj' = set_prop pj f d'"
      "d \<noteq> JNull" "d \<noteq> JUndefined" "update_deps mp (Object_keys mp) d = Inr d'"
    by (elim disjE exE conjE) blast+
  then show ?thesis
  proof cases
    case absent
    then show ?thesis by (simp add: update_dependencyField_def)
  next
    case null
    then show ?thesis by (auto simp: update_dependencyField_def get_set_prop)
  next
    case deps
    have g: "get_prop pj' f = Some d'" unfolding deps(2) by (simp add: get_set_prop)
    have "d' \<noteq> JNull \<and> d' \<noteq> JUndefined"
    proof (cases "\<exists>obj. d = JObj obj")
      case True
      then obtain obj where "d = JObj obj" by blast
      with update_deps_obj[of mp "Object_keys mp" obj d'] deps(5) show ?thesis by auto
    next
      case False
      with update_deps_not_obj[OF deps(5)] deps(3,4) show ?thesis by auto
    qed
    with g update_deps_idem[OF deps(5)] show ?thesis
      by (simp add: update_dependencyField_def set_prop_same)
  qed
qed

lemma update_dependencyField_again:
  assumes "update_dependencyField mp f pj2 = Inr pj2" and "get_prop pj' f = get_prop pj2 f"
  shows "update_dependencyField mp f pj' = Inr pj'"
proof (cases "get_prop pj2 f")
  case None
  with assms(2) show ?thesis by (simp add: update_dependencyField_def)
next
  case (Some d)
  show ?thesis
  proof (cases "d = JNull \<or> d = JUndefined")
    case True
    with Some assms(2) show ?thesis by (auto simp: update_dependencyField_def)
  next
    case False
    with Some assms(1) obtain d' where d': "update_deps mp (Object_keys mp) d = Inr d'"
      "set_prop pj2 f d' = pj2"
      by (auto simp: update_dependencyField_def split: sum.splits)
    have "get_prop (set_prop pj2 f d') f = Some d'" by (simp add: get_set_prop)
    with d'(2) Some have "d' = d" by simp
    with d'(1) Some assms(2) False show ?thesis
      by (simp add: update_dependencyField_def set_prop_same)
  qed
qed

lemma updatePackageJson_name:
  assumes "updatePackageJson p pj mp = Inr (pj', w)"
  shows "get_prop pj' ''name'' = get_prop pj ''name''"
proof -
  from updatePackageJson_stages[OF assms(1)] obtain pj1 pj2 where
    s: "update_version mp pj = Inr pj1"
       "update_dependencyField mp ''dependencies'' pj1 = Inr pj2"
       "update_dependencyField mp ''devDependencies'' pj2 = Inr pj'" by blast
  then show ?thesis
    by (simp add: update_dependencyField_other update_version_other)
qed

lemma packageName_key_cong:
  "get_prop a ''name'' = get_prop b ''name'' \<Longrightarrow> packageName_key a = packageName_key b"
  by (simp add: packageName_key_def)

text \<open>The dependency fields of a rewritten manifest are left as they are by another
  rewrite, in any manifest that has them.\<close>

lemma update_dependencyFields_again:
  assumes "updatePackageJson p pj mp = Inr (pj', w)"
    and "get_prop x ''dependencies'' = get_prop pj' ''dependencies''"
    and "get_prop x ''devDependencies'' = get_prop pj' ''devDependencies''"
  shows "update_dependencyFields mp [''dependencies'', ''devDependencies''] x = Inr x"
proof -
  from updatePackageJson_stages[OF assms(1)] obtain pj1 pj2 where
    s: "update_version mp pj = Inr pj1"
       "update_dependencyField mp ''dependencies'' pj1 = Inr pj2"
       "update_dependencyField mp ''devDependencies'' pj2 = Inr pj'" by blast
  have "get_prop x ''dependencies'' = get_prop pj2 ''dependencies''"
    using s(3) assms(2) by (simp add: update_dependencyField_other)
  from update_dependencyField_again[OF update_dependencyField_idem[OF s(2)] this]
  have 2: "update_dependencyField mp ''dependencies'' x = Inr x" .
  from update_dependencyField_again[OF update_dependencyField_idem[OF s(3)] assms(3)]
  have 3: "update_dependencyField mp ''devDependencies'' x = Inr x" .
  from 2 3 show ?thesis by simp
qed

lemma updatePackageJson_idem:
  assumes "updatePackageJson p pj mp = Inr (pj', w)"
  shows "updatePackageJson p pj' mp = Inr (pj', w)"
proof -
  from updatePackageJson_stages[OF assms(1)] have
    w: "w = \<lparr>join_dir = p, join_file = ''package.json'', data = written_text pj'\<rparr>" by blast
  from version_after[OF assms] obtain n where n: "packageName_key pj = Inr n"
    "has_prop n mp \<longrightarrow> get_prop pj' ''version'' = Some (read_version mp n)" by blast
  from packageName_key_cong[OF updatePackageJson_name[OF assms]] n(1)
  have "packageName_key pj' = Inr n" by simp
  with n(2) have 1: "update_version mp pj' = Inr pj'"
    by (simp add: update_version_def set_prop_same)
  from update_dependencyFields_again[OF assms refl refl] 1 w show ?thesis
    by (simp add: updatePackageJson_def)
qed

text \<open>A manifest whose version and dependencies already have the values the mapping
  answers is left as it is.\<close>

lemma updatePackageJson_fixed:
  assumes "updatePackageJson p pj mp = Inr (pj', w)"
    and "\<forall>n. packageName_key pj = Inr n \<and> has_prop n mp \<longrightarrow>
           get_prop pj ''version'' = Some (read_version mp n)"
    and "\<forall>f\<in>{''dependencies'', ''devDependencies''}. \<forall>deps k.
           get_prop pj f = Some (JObj deps) \<and> k \<in> set (Object_keys mp) \<and> has_prop k deps \<longrightarrow>
           get_prop deps k = Some (read_version mp k)"
  shows "pj' = pj"
proof -
  from updatePackageJson_stages[OF assms(1)] obtain pj1 pj2 where
    s: "update_version mp pj = Inr pj1"
       "update_dependencyField mp ''dependencies'' pj1 = Inr pj2"
       "update_dependencyField mp ''devDependencies'' pj2 = Inr pj'" by blast
  from update_version_cases[OF s(1)] assms(2) have 1: "pj1 = pj"
    by (auto simp: set_prop_same)
  have field: "pj'' = pj" if "update_dependencyField mp f pj = Inr pj''"
    "f \<in> {''dependencies'', ''devDependencies''}" for f pj''
  proof (cases "\<exists>deps. get_prop pj f = Some (JObj deps)")
    case False
    with update_dependencyField_not_obj[OF that(1)] show ?thesis by simp
  next
    case True
    then obtain deps where g: "get_prop pj f = Some (JObj deps)" by blast
    with update_dependencyField_cases[OF that(1)] obtain d' where
      d: "pj'' = set_prop pj f d'" "update_deps mp (Object_keys mp) (JObj deps) = Inr d'" by auto
    from assms(3) that(2) g have h: "\<forall>k. k \<in> set (Object_keys mp) \<and> has_prop k deps \<longrightarrow>
        get_prop deps k = Some (read_version mp k)" by blast
    have "update_deps mp (Object_keys mp) (JObj deps) = Inr (JObj deps)"
    proof (rule update_deps_fixed[OF subset_refl])
      show "\<forall>k\<in>set (Object_keys mp). k \<in> set (Object_keys deps) \<longrightarrow>
          get_prop deps k = Some (read_version mp k)"
        using h by (simp add: has_prop_def)
      show "\<forall>k\<in>set (Object_keys mp). k \<in> set Object_prototype_names \<and> k \<noteq> ''__proto__'' \<longrightarrow>
          k \<in> set (Object_keys deps)"
        using h get_prop_Some_key[of deps] by (auto simp: has_prop_def)
    qed
    with d g show ?thesis by (simp add: set_prop_same)
  qed
  from field[of "''dependencies''" pj2] s(2) 1 have 2: "pj2 = pj" by simp
  from field[of "''devDependencies''" pj'] s(3) 2 show ?thesis by simp
qed

section \<open>Reading a manifest back\<close>

lemma serialize_None:
  "SerializeJSONProperty gap i v = None \<longleftrightarrow> SerializeJSONProperty [] [] v = None"
  by (cases v) (simp_all add: Let_def)

lemma is_json_serialized: "is_json v \<Longrightarrow> \<exists>text. SerializeJSONProperty gap i v = Some text"
  by (cases v) (simp_all add: Let_def)

lemma is_json_reparse: "is_json v \<Longrightarrow> reparse v = v"
proof (induction v)
  case (JArr vs)
  have "(if SerializeJSONProperty [] [] x = None then JNull else reparse x) = x"
    if "x \<in> set vs" for x
  proof -
    from that JArr.prems have j: "is_json x" by (simp add: list_all_iff)
    from is_json_serialized[OF j] have "SerializeJSONProperty [] [] x \<noteq> None" by simp
    with JArr.IH[OF that j] show ?thesis by auto
  qed
  then show ?case by (simp add: map_idI)
next
  case (JObj obj)
  have "filter (\<lambda>(k, v). SerializeJSONProperty [] [] v \<noteq> None) obj = obj"
    using JObj.prems by (auto simp: list_all_iff is_json_serialized intro!: filter_True)
  moreover have "map (\<lambda>(k, v). (k, reparse v)) obj = obj"
    using JObj by (auto simp: list_all_iff intro!: map_idI)
  ultimately show ?case by simp
qed simp_all

lemma reparse_props_Cons:
  "reparse_props ((k, v) # obj) =
     (if SerializeJSONProperty [] [] v = None then [] else [(k, reparse v)]) @ reparse_props obj"
  by (simp add: reparse_props_def)

lemma reparse_props_json:
  "\<forall>(k, v)\<in>set obj. is_json v \<Longrightarrow> reparse_props obj = obj"
  by (induction obj) (auto simp: reparse_props_def is_json_serialized is_json_reparse)

lemma filter_other_keys:
  "key \<notin> set (Object_keys obj) \<Longrightarrow> filter (\<lambda>(k, v). k \<noteq> key) obj = obj"
  by (induction obj) (auto simp: Object_keys_def)

text \<open>A manifest in which every value but the one under \<^verbatim>\<open>key\<close> is a JSON value is
  read back without that entry when the value has no text, and with the value read back
  otherwise.\<close>

lemma reparse_props_except:
  assumes "distinct (Object_keys obj)"
    and "\<forall>(k, v)\<in>set obj. k \<noteq> key \<longrightarrow> is_json v"
    and "get_prop obj key = Some X"
  shows "reparse_props obj =
     (if SerializeJSONProperty [] [] X = None then filter (\<lambda>(k, v). k \<noteq> key) obj
      else set_prop obj key (reparse X))"
  using assms
proof (induction obj)
  case Nil
  then show ?case by (simp add: get_prop_def)
next
  case (Cons e obj)
  obtain k v where e: "e = (k, v)" by (cases e)
  show ?case
  proof (cases "k = key")
    case True
    with Cons.prems(3) e have v: "v = X" by (simp add: get_prop_def)
    from Cons.prems(1) e True have nk: "key \<notin> set (Object_keys obj)"
      by (simp add: Object_keys_def)
    then have "\<forall>(k, v)\<in>set obj. k \<noteq> key" by (force simp: Object_keys_def)
    with Cons.prems(2) have "\<forall>(k, v)\<in>set obj. is_json v" by auto
    then have "reparse_props obj = obj" by (rule reparse_props_json)
    with filter_other_keys[OF nk] e True v show ?thesis
      by (simp add: reparse_props_Cons)
  next
    case False
    with Cons.prems e have j: "is_json v" and d: "distinct (Object_keys obj)"
      and r: "\<forall>(k, v)\<in>set obj. k \<noteq> key \<longrightarrow> is_json v" and g: "get_prop obj key = Some X"
      by (auto simp: Object_keys_def get_prop_def)
    from Cons.IH[OF d r g] e False j show ?thesis
      by (simp add: reparse_props_Cons is_json_serialized is_json_reparse)
  qed
qed

lemma get_prop_filter:
  "get_prop (filter (\<lambda>(k, v). k \<noteq> key) obj) k' = (if k' = key then None else get_prop obj k')"
  by (induction obj) (auto simp: get_prop_def)

lemma keys_filter:
  "key \<notin> set (Object_keys (filter (\<lambda>(k, v). k \<noteq> key) obj))"
  by (auto simp: Object_keys_def)

text \<open>An entry that has no text can be taken out of an object and put at its end: the
  text of the object is the same.\<close>

lemma serialize_object_omit:
  assumes "\<forall>(k, v)\<in>set obj. k = key \<longrightarrow> SerializeJSONProperty [] [] v = None"
    and "SerializeJSONProperty [] [] X = None"
  shows "SerializeJSONProperty gap i (JObj (filter (\<lambda>(k, v). k \<noteq> key) obj @ [(key, X)])) =
         SerializeJSONProperty gap i (JObj obj)"
proof -
  let ?F = "\<lambda>(P, v). case SerializeJSONProperty gap (i @ gap) v of
                        None \<Rightarrow> []
                      | Some strP \<Rightarrow>
                          [QuoteJSONString P @ '':'' @ (if gap = [] then [] else '' '') @ strP]"
  from assms(2) have X: "SerializeJSONProperty gap (i @ gap) X = None"
    using serialize_None[of gap "i @ gap" X] by simp
  have "concat (map ?F (filter (\<lambda>(k, v). k \<noteq> key) obj)) = concat (map ?F obj)"
    using assms(1)
  proof (induction obj)
    case Nil
    then show ?case by simp
  next
    case (Cons e obj)
    obtain k v where e: "e = (k, v)" by (cases e)
    from Cons have IH: "concat (map ?F (filter (\<lambda>(k, v). k \<noteq> key) obj)) = concat (map ?F obj)"
      by simp
    show ?case
    proof (cases "k = key")
      case True
      with Cons.prems e have "SerializeJSONProperty [] [] v = None" by simp
      then have "SerializeJSONProperty gap (i @ gap) v = None"
        using serialize_None[of gap "i @ gap" v] by simp
      with IH e True show ?thesis by simp
    next
      case False
      with IH e show ?thesis by simp
    qed
  qed
  with X have "concat (map ?F (filter (\<lambda>(k, v). k \<noteq> key) obj @ [(key, X)])) = concat (map ?F obj)"
    by simp
  then show ?thesis by (simp only: SerializeJSONProperty.simps Let_def)
qed

lemma written_text_omit:
  assumes "distinct (Object_keys obj)" and "get_prop obj key = Some X"
    and "SerializeJSONProperty [] [] X = None"
  shows "written_text (filter (\<lambda>(k, v). k \<noteq> key) obj @ [(key, X)]) = written_text obj"
proof -
  from assms(2) have "(key, X) \<in> set obj" by (auto simp: get_prop_def dest: map_of_SomeD)
  with assms(1) have "\<forall>(k, v)\<in>set obj. k = key \<longrightarrow> v = X"
    by (auto simp: Object_keys_def dest: eq_key_imp_eq_value)
  with assms(3) have "\<forall>(k, v)\<in>set obj. k = key \<longrightarrow> SerializeJSONProperty [] [] v = None"
    by auto
  from serialize_object_omit[OF this assms(3)] show ?thesis
    unfolding written_text_def JSON_stringify_def by (simp only:)
qed

section \<open>The values of a rewritten manifest\<close>

lemma set_set_prop: "set (set_prop obj k v) \<subseteq> insert (k, v) (set obj)"
  by (induction obj) (auto split: if_splits)

lemma distinct_set_prop:
  "distinct (Object_keys obj) \<Longrightarrow> distinct (Object_keys (set_prop obj k v))"
  by (simp add: keys_set_prop)

lemma is_json_set_prop:
  assumes "is_json (JObj obj)" and "is_json v"
  shows "is_json (JObj (set_prop obj k v))"
proof -
  from assms(1) have "distinct (Object_keys obj)" by (simp add: Object_keys_def)
  from distinct_set_prop[OF this] have "distinct (map fst (set_prop obj k v))"
    by (simp add: Object_keys_def)
  moreover have "\<forall>(k', v')\<in>set (set_prop obj k v). is_json v'"
    using set_set_prop[of obj k v] assms by (auto simp: list_all_iff)
  ultimately show ?thesis by (simp add: list_all_iff)
qed

lemma update_deps_json:
  assumes "update_deps mp ks (JObj obj) = Inr d'" and "set ks \<subseteq> set (Object_keys mp)"
    and "is_json (JObj obj)"
  shows "is_json d'"
  using assms
proof (induction ks arbitrary: obj)
  case Nil
  then show ?case by simp
next
  case (Cons k ks)
  from Cons.prems(2) obtain v where v: "read_version mp k = JStr v"
    using read_version_key[of k mp] by auto
  from Cons.prems(2) have ks: "set ks \<subseteq> set (Object_keys mp)" by simp
  show ?case
  proof (cases "has_prop k obj")
    case False
    with Cons.prems(1) have "update_deps mp ks (JObj obj) = Inr d'" by simp
    from Cons.IH[OF this ks Cons.prems(3)] show ?thesis .
  next
    case True
    let ?obj1 = "if k \<in> set (Object_keys obj) \<or> k \<noteq> ''__proto__''
                 then set_prop obj k (JStr v) else obj"
    from True Cons.prems(1) v have r: "update_deps mp ks (JObj ?obj1) = Inr d'"
      by (simp add: assign_prop_string)
    have "is_json (JObj ?obj1)"
      using is_json_set_prop[OF Cons.prems(3), of "JStr v" k] Cons.prems(3) by simp
    from Cons.IH[OF r ks this] show ?thesis .
  qed
qed

text \<open>After each stage the keys of the manifest are distinct and every value but the
  version is a JSON value.\<close>

lemma update_dependencyField_json:
  assumes "update_dependencyField mp f pj = Inr pj'" and "f \<noteq> ''version''"
    and "distinct (Object_keys pj)"
    and "\<forall>(k, v)\<in>set pj. k \<noteq> ''version'' \<longrightarrow> is_json v"
  shows "distinct (Object_keys pj') \<and> (\<forall>(k, v)\<in>set pj'. k \<noteq> ''version'' \<longrightarrow> is_json v)"
proof -
  from update_dependencyField_cases[OF assms(1)] consider
    (same) "pj' = pj"
  | (deps) d d' where "get_prop pj f = Some d" "pj' = set_prop pj f d'"
      "update_deps mp (Object_keys mp) d = Inr d'"
    by (elim disjE exE conjE) (auto simp: set_prop_same)
  then show ?thesis
  proof cases
    case same
    with assms(3,4) show ?thesis by simp
  next
    case deps
    from deps(1) have "(f, d) \<in> set pj" by (auto simp: get_prop_def dest: map_of_SomeD)
    with assms(2,4) have j: "is_json d" by auto
    have j': "is_json d'"
    proof (cases "\<exists>obj. d = JObj obj")
      case True
      then obtain obj where d: "d = JObj obj" by blast
      from update_deps_json[OF deps(3)[unfolded d] subset_refl] j d show ?thesis by simp
    next
      case False
      with update_deps_not_obj[OF deps(3)] j show ?thesis by auto
    qed
    have "\<forall>(k, v)\<in>set pj'. k \<noteq> ''version'' \<longrightarrow> is_json v"
      unfolding deps(2) using set_set_prop[of pj f d'] assms(4) j' by auto
    with distinct_set_prop[OF assms(3)] deps(2) show ?thesis by simp
  qed
qed

lemma updatePackageJson_json:
  assumes "updatePackageJson p pj mp = Inr (pj', w)" and "is_json (JObj pj)"
  shows "distinct (Object_keys pj') \<and> (\<forall>(k, v)\<in>set pj'. k \<noteq> ''version'' \<longrightarrow> is_json v)"
proof -
  from updatePackageJson_stages[OF assms(1)] obtain pj1 pj2 where
    s: "update_version mp pj = Inr pj1"
       "update_dependencyField mp ''dependencies'' pj1 = Inr pj2"
       "update_dependencyField mp ''devDependencies'' pj2 = Inr pj'" by blast
  from assms(2) have d: "distinct (Object_keys pj)" and j: "\<forall>(k, v)\<in>set pj. is_json v"
    by (simp_all add: Object_keys_def list_all_iff)
  from update_version_cases[OF s(1)] obtain X where
    "pj1 = set_prop pj ''version'' X \<or> pj1 = pj" by blast
  then have 1: "distinct (Object_keys pj1) \<and> (\<forall>(k, v)\<in>set pj1. k \<noteq> ''version'' \<longrightarrow> is_json v)"
  proof
    assume e: "pj1 = set_prop pj ''version'' X"
    have "\<forall>(k, v)\<in>set pj1. k \<noteq> ''version'' \<longrightarrow> is_json v"
      unfolding e using set_set_prop[of pj "''version''" X] j by auto
    with distinct_set_prop[OF d] e show ?thesis by simp
  next
    assume "pj1 = pj"
    with d j show ?thesis by auto
  qed
  from update_dependencyField_json[OF s(2)] 1
  have 2: "distinct (Object_keys pj2) \<and> (\<forall>(k, v)\<in>set pj2. k \<noteq> ''version'' \<longrightarrow> is_json v)"
    by simp
  from update_dependencyField_json[OF s(3)] 2 show ?thesis by simp
qed

section \<open>Rewriting a manifest that was read back\<close>

lemma updatePackageJson_read_back_json:
  assumes "updatePackageJson p pj mp = Inr (pj', w)" and "is_json (JObj pj')"
  shows "updatePackageJson p (reparse_props pj') mp = Inr (pj', w)"
proof -
  from assms(2) have "\<forall>(k, v)\<in>set pj'. is_json v" by (simp add: list_all_iff)
  then have "reparse_props pj' = pj'" by (rule reparse_props_json)
  with updatePackageJson_idem[OF assms(1)] show ?thesis by simp
qed

text \<open>The rewrite of a manifest that is read back from the file of a rewrite writes the
  text that is in the file.\<close>

lemma updatePackageJson_read_back:
  assumes u: "updatePackageJson p pj mp = Inr (pj', w)" and j: "is_json (JObj pj)"
  shows "\<exists>pj''. updatePackageJson p (reparse_props pj') mp = Inr (pj'', w)"
proof -
  from updatePackageJson_stages[OF u] have
    w: "w = \<lparr>join_dir = p, join_file = ''package.json'', data = written_text pj'\<rparr>" by blast
  from updatePackageJson_json[OF u j] have d: "distinct (Object_keys pj')"
    and o: "\<forall>(k, v)\<in>set pj'. k \<noteq> ''version'' \<longrightarrow> is_json v" by simp_all
  from version_after[OF u] obtain n where n: "packageName_key pj = Inr n"
    and yes: "has_prop n mp \<longrightarrow> get_prop pj' ''version'' = Some (read_version mp n)"
    and no: "\<not> has_prop n mp \<longrightarrow> get_prop pj' ''version'' = get_prop pj ''version''" by blast
  from packageName_key_cong[OF updatePackageJson_name[OF u]] n
  have n': "packageName_key pj' = Inr n" by simp
  show ?thesis
  proof (cases "has_prop n mp")
    case False
    have "is_json v" if "(k, v) \<in> set pj'" for k v
    proof (cases "k = ''version''")
      case True
      with that d have "get_prop pj' ''version'' = Some v"
        by (simp add: get_prop_def Object_keys_def)
      with no False have "get_prop pj ''version'' = Some v" by simp
      then have "(''version'', v) \<in> set pj" by (auto simp: get_prop_def dest: map_of_SomeD)
      with j show ?thesis by (auto simp: list_all_iff)
    next
      case False
      with o that show ?thesis by auto
    qed
    with d have "is_json (JObj pj')" by (auto simp: list_all_iff Object_keys_def)
    from updatePackageJson_read_back_json[OF u this] show ?thesis by blast
  next
    case True
    let ?X = "read_version mp n"
    from True yes have g: "get_prop pj' ''version'' = Some ?X" by simp
    note q = reparse_props_except[OF d o g]
    show ?thesis
    proof (cases "SerializeJSONProperty [] [] ?X = None")
      case False
      with q have q': "reparse_props pj' = set_prop pj' ''version'' (reparse ?X)" by simp
      have "get_prop (reparse_props pj') ''name'' = get_prop pj' ''name''"
        unfolding q' by (simp add: get_set_prop)
      from packageName_key_cong[OF this] n'
      have "packageName_key (reparse_props pj') = Inr n" by simp
      with True have "update_version mp (reparse_props pj') =
          Inr (set_prop (reparse_props pj') ''version'' ?X)"
        by (simp add: update_version_def)
      also have "set_prop (reparse_props pj') ''version'' ?X = pj'"
        unfolding q' set_prop_twice using g by (rule set_prop_same)
      finally have 1: "update_version mp (reparse_props pj') = Inr pj'" .
      from update_dependencyFields_again[OF u refl refl] 1 w show ?thesis
        by (simp add: updatePackageJson_def)
    next
      case None: True
      let ?q = "filter (\<lambda>(k, v). k \<noteq> ''version'') pj'"
      from q None have q': "reparse_props pj' = ?q" by simp
      have "get_prop ?q ''name'' = get_prop pj' ''name''"
        by (simp add: get_prop_filter)
      from packageName_key_cong[OF this] n' have "packageName_key ?q = Inr n" by simp
      with \<open>has_prop n mp\<close> have 1: "update_version mp ?q = Inr (set_prop ?q ''version'' ?X)"
        by (simp add: update_version_def)
      have f: "get_prop (set_prop ?q ''version'' ?X) ''dependencies'' = get_prop pj' ''dependencies''"
        "get_prop (set_prop ?q ''version'' ?X) ''devDependencies'' = get_prop pj' ''devDependencies''"
        by (simp_all add: get_set_prop get_prop_filter)
      have e: "set_prop ?q ''version'' ?X = ?q @ [(''version'', ?X)]"
        by (rule set_prop_new) (rule keys_filter)
      from written_text_omit[OF d g None] e
      have t: "written_text (set_prop ?q ''version'' ?X) = written_text pj'" by simp
      from update_dependencyFields_again[OF u f] 1 w t q' show ?thesis
        by (simp add: updatePackageJson_def)
    qed
  qed
qed

section \<open>Running the driver a second time\<close>

lemma map_of_graph:
  "map_of (map (\<lambda>x. (x, g x)) xs) y = (if y \<in> set xs then Some (g y) else None)"
  by (induction xs) auto

lemma read_back_package_name: "name (read_back_package r pkg) = name pkg"
  by (simp add: read_back_package_def split: option.splits sum.splits prod.splits)

lemma read_back_package_path: "path (read_back_package r pkg) = path pkg"
  by (simp add: read_back_package_def split: option.splits sum.splits prod.splits)

lemma read_back_keys: "Object_keys (read_back r packages) = Object_keys packages"
  by (simp add: read_back_def Object_keys_def case_prod_unfold comp_def)

lemma read_back_values:
  "Object_values (read_back r packages) = map (read_back_package r) (Object_values packages)"
  by (simp add: read_back_def Object_values_def case_prod_unfold comp_def)

lemma read_back_rejected:
  "rewriter_calls r = [] \<Longrightarrow> read_back r packages = packages"
  by (simp add: read_back_def read_back_package_def case_prod_unfold)

lemma rejected_setVersion:
  "rejected (setVersion setRN packages version skip) =
     (case setRN (if skip then ''1000.0.0'' else version)
             (Object_fromEntries (map (\<lambda>packageName. (packageName, version)) (Object_keys packages))) of
        Some e \<Rightarrow> Some e
      | None \<Rightarrow> first_rejection (map snd (rewriter_calls (setVersion setRN packages version skip))))"
  by (simp add: setVersion_def Let_def split: option.splits)

lemma first_rejection_outcome:
  "first_rejection (map (map_sum id f) rs) = first_rejection rs"
  by (induction rs rule: first_rejection.induct) simp_all

lemma writes_outcome:
  "writes r = concat (map (\<lambda>x. case x of Inl e \<Rightarrow> [] | Inr w \<Rightarrow> [w])
                        (map (\<lambda>(pkg, res). map_sum id snd res) (rewriter_calls r)))"
  unfolding writes_def map_map
  by (rule arg_cong[where f = concat], rule map_cong[OF refl])
     (simp split: prod.splits sum.splits)

lemma writes_results:
  "writes r = concat (map (\<lambda>res. case res of Inl e \<Rightarrow> [] | Inr (pj, w) \<Rightarrow> [w])
                        (map snd (rewriter_calls r)))"
  unfolding writes_def map_map
  by (rule arg_cong[where f = concat], rule map_cong[OF refl]) (simp split: prod.splits)

text \<open>The calls of the second run, on the registry that read the files of the first.\<close>

lemma rewriter_calls_read_back:
  assumes "r = setVersion setRN packages version skip"
  shows "rewriter_calls (setVersion setRN (read_back r packages) version skip) =
         map (\<lambda>(pkg, res). (read_back_package r pkg,
                 updatePackageJson (path pkg) (packageJson (read_back_package r pkg))
                   (setter_mapping r)))
             (rewriter_calls r)"
proof -
  let ?mp = "Object_fromEntries (map (\<lambda>packageName. (packageName, version)) (Object_keys packages))"
  show ?thesis
  proof (cases "setRN (if skip then ''1000.0.0'' else version) ?mp")
    case (Some e)
    then have "rewriter_calls r = []"
      unfolding assms rewriter_calls_setVersion by simp
    with read_back_rejected[OF this, of packages] show ?thesis unfolding assms by simp
  next
    case None
    have "filter (\<lambda>pkg. name pkg \<noteq> ''react-native'') (Object_values (read_back r packages)) =
        map (read_back_package r) (filter (\<lambda>pkg. name pkg \<noteq> ''react-native'') (Object_values packages))"
      by (simp add: read_back_values filter_map comp_def read_back_package_name)
    with None show ?thesis
      unfolding rewriter_calls_setVersion[of setRN "read_back r packages"] read_back_keys
      unfolding assms setter_mapping_setVersion rewriter_calls_setVersion
      by (simp add: comp_def read_back_package_path)
  qed
qed

lemma read_back_package_call:
  assumes "r = setVersion setRN packages version skip"
    and "(pkg, res) \<in> set (rewriter_calls r)"
  shows "res = updatePackageJson (path pkg) (packageJson pkg) (setter_mapping r) \<and>
         pkg \<in> set (Object_values packages) \<and>
         read_back_package r pkg =
           (case res of Inl e \<Rightarrow> pkg | Inr (pj, w) \<Rightarrow> pkg\<lparr>packageJson := reparse_props pj\<rparr>)"
proof -
  let ?mp = "Object_fromEntries (map (\<lambda>packageName. (packageName, version)) (Object_keys packages))"
  let ?xs = "filter (\<lambda>pkg. name pkg \<noteq> ''react-native'') (Object_values packages)"
  let ?U = "\<lambda>pkg. updatePackageJson (path pkg) (packageJson pkg) ?mp"
  from assms(2) have calls: "rewriter_calls r = map (\<lambda>pkg. (pkg, ?U pkg)) ?xs"
    unfolding assms(1) rewriter_calls_setVersion by (auto split: option.splits)
  with assms(2) have m: "pkg \<in> set ?xs" "res = ?U pkg" by auto
  from calls m(1) have "map_of (rewriter_calls r) pkg = Some (?U pkg)"
    by (simp add: map_of_graph)
  with m show ?thesis
    unfolding assms(1) setter_mapping_setVersion[of setRN packages version skip]
    by (simp add: read_back_package_def assms(1))
qed

lemma setVersion_read_back:
  assumes "r = setVersion setRN packages version skip"
    and "\<forall>pkg\<in>set (Object_values packages). is_json (JObj (packageJson pkg))"
  shows "map (\<lambda>(pkg, res). map_sum id snd res)
           (rewriter_calls (setVersion setRN (read_back r packages) version skip)) =
         map (\<lambda>(pkg, res). map_sum id snd res) (rewriter_calls r)"
proof -
  have "map_sum id snd (updatePackageJson (path pkg) (packageJson (read_back_package r pkg))
            (setter_mapping r)) = map_sum id snd res"
    if c: "(pkg, res) \<in> set (rewriter_calls r)" for pkg res
  proof -
    note b = read_back_package_call[OF assms(1) c]
    show ?thesis
    proof (cases res)
      case (Inl e)
      with b show ?thesis by simp
    next
      case (Inr y)
      obtain pj' w where y: "y = (pj', w)" by (cases y)
      from b Inr y have u: "updatePackageJson (path pkg) (packageJson pkg) (setter_mapping r) =
          Inr (pj', w)" by simp
      from b assms(2) have "is_json (JObj (packageJson pkg))" by blast
      from updatePackageJson_read_back[OF u this] obtain pj'' where
        "updatePackageJson (path pkg) (reparse_props pj') (setter_mapping r) = Inr (pj'', w)"
        by blast
      moreover from b Inr y
      have "read_back_package r pkg = pkg\<lparr>packageJson := reparse_props pj'\<rparr>" by simp
      ultimately show ?thesis using Inr y by simp
    qed
  qed
  then show ?thesis
    unfolding rewriter_calls_read_back[OF assms(1)] map_map
    by (intro map_cong[OF refl]) (auto simp: comp_def)
qed

lemma setVersion_read_back_json:
  assumes "r = setVersion setRN packages version skip"
    and "\<forall>pkg pj' w. (pkg, Inr (pj', w)) \<in> set (rewriter_calls r) \<longrightarrow> is_json (JObj pj')"
  shows "map snd (rewriter_calls (setVersion setRN (read_back r packages) version skip)) =
         map snd (rewriter_calls r)"
proof -
  have "updatePackageJson (path pkg) (packageJson (read_back_package r pkg))
            (setter_mapping r) = res"
    if c: "(pkg, res) \<in> set (rewriter_calls r)" for pkg res
  proof -
    note b = read_back_package_call[OF assms(1) c]
    show ?thesis
    proof (cases res)
      case (Inl e)
      with b show ?thesis by simp
    next
      case (Inr y)
      obtain pj' w where y: "y = (pj', w)" by (cases y)
      from b Inr y have u: "updatePackageJson (path pkg) (packageJson pkg) (setter_mapping r) =
          Inr (pj', w)" by simp
      from assms(2) c Inr y have "is_json (JObj pj')" by blast
      from updatePackageJson_read_back_json[OF u this]
      have "updatePackageJson (path pkg) (reparse_props pj') (setter_mapping r) = Inr (pj', w)" .
      moreover from b Inr y
      have "read_back_package r pkg = pkg\<lparr>packageJson := reparse_props pj'\<rparr>" by simp
      ultimately show ?thesis using Inr y by simp
    qed
  qed
  then show ?thesis
    unfolding rewriter_calls_read_back[OF assms(1)] map_map
    by (intro map_cong[OF refl]) (auto simp: comp_def)
qed

lemma setVersion_read_back_setter:
  "setter_mapping (setVersion setRN (read_back r packages) version skip) =
     setter_mapping (setVersion setRN packages version skip) \<and>
   setter_version (setVersion setRN (read_back r packages) version skip) =
     setter_version (setVersion setRN packages version skip)"
  by (simp add: setter_mapping_setVersion setter_version_setVersion read_back_keys)

lemma setVersion_read_back_rejected:
  assumes "map (\<lambda>(pkg, res). map_sum id snd res)
           (rewriter_calls (setVersion setRN (read_back r packages) version skip)) =
         map (\<lambda>(pkg, res). map_sum id snd res) (rewriter_calls (setVersion setRN packages version skip))"
  shows "rejected (setVersion setRN (read_back r packages) version skip) =
         rejected (setVersion setRN packages version skip)"
proof -
  have e: "first_rejection (map snd calls) =
      first_rejection (map (\<lambda>(pkg, res). map_sum id snd res) calls)"
    for calls :: "(PackageInfo \<times> (error + props \<times> file_write)) list"
    using first_rejection_outcome[of snd "map snd calls"]
    by (simp add: comp_def case_prod_unfold)
  show ?thesis
    unfolding rejected_setVersion read_back_keys e assms ..
qed

section \<open>The tree with a package named \<^verbatim>\<open>constructor\<close>\<close>

lemma constructor_run:
  "updatePackageJson ''/repo/packages/constructor'' constructor_manifest tool_a_only =
     Inr (constructor_rewritten, constructor_write)"
  by code_simp

section \<open>What the rewriter does to a manifest\<close>

text \<open>
  C2 (completeness). When \<^verbatim>\<open>updatePackageJson\<close> has run, then for each of the fields
  \<^verbatim>\<open>dependencies\<close> and \<^verbatim>\<open>devDependencies\<close> that the manifest has as an object, every
  key \<open>K\<close> of that object that is also a key of \<^verbatim>\<open>newPackageVersions\<close> holds the
  value \<^verbatim>\<open>newPackageVersions[K]\<close>.
\<close>

theorem updatePackageJson_completeness:
  assumes "updatePackageJson p pj mp = Inr (pj', w)"
    and "f = ''dependencies'' \<or> f = ''devDependencies''"
    and "get_prop pj f = Some (JObj deps)"
    and "K \<in> set (Object_keys deps)"
    and "get_prop mp K = Some v"
  shows "\<exists>deps'. get_prop pj' f = Some (JObj deps') \<and> get_prop deps' K = Some (JStr v)"
proof -
  from updatePackageJson_dep_obj[OF assms(1-3)] obtain deps' where
    g: "get_prop pj' f = Some (JObj deps')"
    and u: "update_deps mp (Object_keys mp) (JObj deps) = Inr (JObj deps')" by blast
  from update_deps_obj[OF u] have
    "get_prop deps' K =
       (if K \<in> set (Object_keys mp) \<and>
           (K \<in> set (Object_keys deps) \<or> K \<in> set Object_prototype_names \<and> K \<noteq> ''__proto__'')
        then Some (read_version mp K) else get_prop deps K)"
    by auto
  moreover from assms(5) have "K \<in> set (Object_keys mp)" by (rule get_prop_Some_key)
  ultimately have "get_prop deps' K = Some (JStr v)"
    using assms(4) read_version_own[OF assms(5)] by simp
  with g show ?thesis by blast
qed

theorem updatePackageJson_completeness_witness:
  "updatePackageJson ''/repo/packages/core'' core_manifest example_versions =
     Inr (core_rewritten, core_write) \<and>
   get_prop core_manifest ''devDependencies'' = Some (JObj [(''tool-a'', JStr ''0.1.0'')]) \<and>
   ''tool-a'' \<in> set (Object_keys [(''tool-a'', JStr ''0.1.0'')]) \<and>
   get_prop example_versions ''tool-a'' = Some ''0.2.0'' \<and>
   (\<exists>deps'. get_prop core_rewritten ''devDependencies'' = Some (JObj deps') \<and>
            get_prop deps' ''tool-a'' = Some (JStr ''0.2.0''))"
proof -
  have field: "get_prop core_manifest ''devDependencies'' = Some (JObj [(''tool-a'', JStr ''0.1.0'')])"
    by (simp add: get_prop_def core_manifest_def)
  have key: "''tool-a'' \<in> set (Object_keys [(''tool-a'', JStr ''0.1.0'')])"
    by (simp add: Object_keys_def)
  have version: "get_prop example_versions ''tool-a'' = Some ''0.2.0''"
    by (simp add: get_prop_def example_versions_def)
  from updatePackageJson_completeness[OF core_run _ field key version]
  have "\<exists>deps'. get_prop core_rewritten ''devDependencies'' = Some (JObj deps') \<and>
            get_prop deps' ''tool-a'' = Some (JStr ''0.2.0'')"
    by simp
  with core_run field key version show ?thesis by blast
qed


text \<open>
  C3 (non-interference). The test on line 43, \<^verbatim>\<open>dependency in deps\<close>, is also true for
  a key that \<^verbatim>\<open>deps\<close> only inherits from \<^verbatim>\<open>Object.prototype\<close>. The field
  \<^verbatim>\<open>dependencies\<close> of \<^verbatim>\<open>core\<close> has the one key \<^verbatim>\<open>left-pad\<close>, which is not a key of
  the mapping; rewritten with a mapping that has the key \<^verbatim>\<open>constructor\<close>, the field is
  not what it was: it has the keys \<^verbatim>\<open>left-pad\<close> and \<^verbatim>\<open>constructor\<close>, and another
  text.
\<close>

theorem updatePackageJson_changes_other_field:
  "get_prop core_manifest ''dependencies'' = Some (JObj [(''left-pad'', JStr ''^1.3.0'')]) \<and>
   ''left-pad'' \<notin> set (Object_keys constructor_versions) \<and>
   updatePackageJson ''/repo/packages/core'' core_manifest constructor_versions =
     Inr (core_with_constructor, core_with_constructor_write) \<and>
   get_prop core_with_constructor ''dependencies'' =
     Some (JObj [(''left-pad'', JStr ''^1.3.0''), (''constructor'', JStr ''0.2.0'')]) \<and>
   Object_keys [(''left-pad'', JStr ''^1.3.0''), (''constructor'', JStr ''0.2.0'')] \<noteq>
     Object_keys [(''left-pad'', JStr ''^1.3.0'')] \<and>
   SerializeJSONProperty ''  '' ''  ''
       (JObj [(''left-pad'', JStr ''^1.3.0''), (''constructor'', JStr ''0.2.0'')]) \<noteq>
     SerializeJSONProperty ''  '' ''  '' (JObj [(''left-pad'', JStr ''^1.3.0'')]) \<and>
   data core_with_constructor_write = core_with_constructor_text"
  by code_simp

text \<open>
  C7 (nothing is created). In a tree with a package named \<^verbatim>\<open>constructor\<close> the mapping
  that \<^verbatim>\<open>setVersion\<close> builds has the key \<^verbatim>\<open>constructor\<close>. The field
  \<^verbatim>\<open>devDependencies\<close> of \<^verbatim>\<open>core\<close> has no such key, and the call of
  \<^verbatim>\<open>updatePackageJson\<close> for \<^verbatim>\<open>core\<close> adds the entry: the test on line 43 finds
  the inherited property, and the assignment on line 44 creates an own one, which is
  written to the file.
\<close>

theorem setVersion_adds_dependency:
  "setter_mapping (setVersion setter_resolves constructor_packages ''0.2.0'' False) =
     constructor_versions \<and>
   ''constructor'' \<in> set (Object_keys constructor_versions) \<and>
   get_prop core_manifest ''devDependencies'' = Some (JObj [(''tool-a'', JStr ''0.1.0'')]) \<and>
   ''constructor'' \<notin> set (Object_keys [(''tool-a'', JStr ''0.1.0'')]) \<and>
   (core_package, Inr (core_with_constructor, core_with_constructor_write))
     \<in> set (rewriter_calls (setVersion setter_resolves constructor_packages ''0.2.0'' False)) \<and>
   get_prop core_with_constructor ''devDependencies'' =
     Some (JObj [(''tool-a'', JStr ''0.2.0''), (''constructor'', JStr ''0.2.0'')]) \<and>
   core_with_constructor_write
     \<in> set (writes (setVersion setter_resolves constructor_packages ''0.2.0'' False)) \<and>
   data core_with_constructor_write = core_with_constructor_text"
  by code_simp

text \<open>
  C8 (what is written), as the script has it. \<^verbatim>\<open>updatePackageJson\<close> assigns to the
  manifest object it was given and makes no copy; \<open>pj'\<close> is that object after the call.
  The file \<^verbatim>\<open>package.json\<close> in \<^verbatim>\<open>packagePath\<close> receives
  \<^verbatim>\<open>JSON.stringify(packageJson, null, 2)\<close> and one newline, so the text ends with
  the closing brace and that single newline. At every depth an object or array that is
  not empty is laid out with one line for each member, in the order of the own
  properties or elements, indented by two spaces more than the line that opens it; a
  property whose value has no text (a function, \<^verbatim>\<open>undefined\<close>) has no line, and an
  element without text is written \<^verbatim>\<open>null\<close>.
\<close>

theorem updatePackageJson_written_text:
  assumes "updatePackageJson p pj mp = Inr (pj', w)"
  shows "join_dir w = p \<and> join_file w = ''package.json'' \<and>
         (\<exists>text. JSON_stringify (JObj pj') 2 = Some text \<and> data w = text @ [newline]) \<and>
         JSON_stringify (JObj pj') 2 = SerializeJSONProperty ''  '' [] (JObj pj') \<and>
         (\<exists>body. data w = body @ ''}'' @ [newline]) \<and>
         (\<forall>i obj members.
            members =
              concat (map (\<lambda>(k, v). case SerializeJSONProperty ''  '' (i @ ''  '') v of
                                       None \<Rightarrow> []
                                     | Some strP \<Rightarrow>
                                         [(i @ ''  '') @ QuoteJSONString k @ '': '' @ strP]) obj) \<and>
            members \<noteq> [] \<longrightarrow>
            SerializeJSONProperty ''  '' i (JObj obj) =
              Some (''{'' @ [newline] @ join ('','' @ [newline]) members @ [newline] @ i @ ''}'')) \<and>
         (\<forall>i vs. vs \<noteq> [] \<longrightarrow>
            SerializeJSONProperty ''  '' i (JArr vs) =
              Some (''['' @ [newline]
                @ join ('','' @ [newline])
                    (map (\<lambda>v. (i @ ''  '') @ (case SerializeJSONProperty ''  '' (i @ ''  '') v of
                                                   None \<Rightarrow> ''null''
                                                 | Some strP \<Rightarrow> strP)) vs)
                @ [newline] @ i @ '']''))"
proof -
  note gap = stringify_gap[of "JObj pj'"]
  from serialize_object_closes[of "''  ''" "[]" pj'] obtain body where
    body: "SerializeJSONProperty ''  '' [] (JObj pj') = Some (body @ ''}'')" by blast
  from updatePackageJson_stages[OF assms] have
    w: "join_dir w = p" "join_file w = ''package.json''"
    and w2: "data w = written_text pj'"
    by auto
  from w2 body have w3: "data w = (body @ ''}'') @ [newline]"
    unfolding written_text_def gap by simp
  from body gap w3 have
    1: "\<exists>text. JSON_stringify (JObj pj') 2 = Some text \<and> data w = text @ [newline]" by simp
  from w3 have 2: "\<exists>body. data w = body @ ''}'' @ [newline]" by simp
  from w 1 gap 2 serialize_object_layout serialize_array_layout show ?thesis by blast
qed

theorem updatePackageJson_written_text_witness:
  "updatePackageJson ''/repo/packages/core'' core_manifest example_versions =
     Inr (core_rewritten, core_write) \<and>
   join_dir core_write = ''/repo/packages/core'' \<and> join_file core_write = ''package.json'' \<and>
   (\<exists>text. JSON_stringify (JObj core_rewritten) 2 = Some text \<and>
           data core_write = text @ [newline]) \<and>
   data core_write = core_text \<and>
   [''    '' @ [dquote] @ ''left-pad'' @ [dquote] @ '': '' @ [dquote] @ ''^1.3.0'' @ [dquote]] \<noteq> [] \<and>
   SerializeJSONProperty ''  '' ''  '' (JObj [(''left-pad'', JStr ''^1.3.0'')]) =
     Some (''{'' @ [newline]
     @ ''    '' @ [dquote] @ ''left-pad'' @ [dquote] @ '': '' @ [dquote] @ ''^1.3.0'' @ [dquote]
     @ [newline] @ ''  }'') \<and>
   [JStr ''dist''] \<noteq> [] \<and>
   SerializeJSONProperty ''  '' ''  '' (JArr [JStr ''dist'']) =
     Some (''['' @ [newline] @ ''    '' @ [dquote] @ ''dist'' @ [dquote] @ [newline] @ ''  ]'')"
proof -
  note t = updatePackageJson_written_text[OF core_run]
  have q1: "QuoteJSONString ''left-pad'' = [dquote] @ ''left-pad'' @ [dquote]"
    and q2: "QuoteJSONString ''^1.3.0'' = [dquote] @ ''^1.3.0'' @ [dquote]"
    and q3: "QuoteJSONString ''dist'' = [dquote] @ ''dist'' @ [dquote]"
    by (simp_all add: QuoteJSONString_def quote_char_def dquote_def backslash_def)
  let ?members = "[''    '' @ [dquote] @ ''left-pad'' @ [dquote] @ '': '' @ [dquote] @ ''^1.3.0'' @ [dquote]]"
  have m: "?members =
      concat (map (\<lambda>(k, v). case SerializeJSONProperty ''  '' (''  '' @ ''  '') v of
                               None \<Rightarrow> []
                             | Some strP \<Rightarrow>
                                 [(''  '' @ ''  '') @ QuoteJSONString k @ '': '' @ strP])
                [(''left-pad'', JStr ''^1.3.0'')])"
    by (simp add: q1 q2)
  have ne: "?members \<noteq> []" by simp
  from t have "?members =
      concat (map (\<lambda>(k, v). case SerializeJSONProperty ''  '' (''  '' @ ''  '') v of
                               None \<Rightarrow> []
                             | Some strP \<Rightarrow>
                                 [(''  '' @ ''  '') @ QuoteJSONString k @ '': '' @ strP])
                [(''left-pad'', JStr ''^1.3.0'')]) \<and> ?members \<noteq> [] \<longrightarrow>
      SerializeJSONProperty ''  '' ''  '' (JObj [(''left-pad'', JStr ''^1.3.0'')]) =
        Some (''{'' @ [newline] @ join ('','' @ [newline]) ?members @ [newline] @ ''  '' @ ''}'')"
    by blast
  with m ne have o: "SerializeJSONProperty ''  '' ''  '' (JObj [(''left-pad'', JStr ''^1.3.0'')]) =
     Some (''{'' @ [newline]
     @ ''    '' @ [dquote] @ ''left-pad'' @ [dquote] @ '': '' @ [dquote] @ ''^1.3.0'' @ [dquote]
     @ [newline] @ ''  }'')"
    by simp
  from t have "[JStr ''dist''] \<noteq> [] \<longrightarrow>
      SerializeJSONProperty ''  '' ''  '' (JArr [JStr ''dist'']) =
        Some (''['' @ [newline]
        @ join ('','' @ [newline])
            (map (\<lambda>v. (''  '' @ ''  '') @ (case SerializeJSONProperty ''  '' (''  '' @ ''  '') v of
                                               None \<Rightarrow> ''null''
                                             | Some strP \<Rightarrow> strP))
               [JStr ''dist''])
        @ [newline] @ ''  '' @ '']'')" by blast
  then have a: "SerializeJSONProperty ''  '' ''  '' (JArr [JStr ''dist'']) =
     Some (''['' @ [newline] @ ''    '' @ [dquote] @ ''dist'' @ [dquote] @ [newline] @ ''  ]'')"
    by (simp add: q3)
  from t have "join_dir core_write = ''/repo/packages/core''" "join_file core_write = ''package.json''"
    "\<exists>text. JSON_stringify (JObj core_rewritten) 2 = Some text \<and>
           data core_write = text @ [newline]" by blast+
  with core_run core_text o a ne show ?thesis by simp
qed

text \<open>The object given for \<^verbatim>\<open>core\<close> is another value after the call: its
  \<^verbatim>\<open>version\<close> and a dependency have been assigned to.\<close>

theorem updatePackageJson_mutates_argument:
  "updatePackageJson ''/repo/packages/core'' core_manifest example_versions =
     Inr (core_rewritten, core_write) \<and>
   core_rewritten \<noteq> core_manifest"
  by (simp add: core_run) (simp add: core_rewritten_def core_manifest_def)

text \<open>
  C5 (a manifest without a name), as the script has it. \<^verbatim>\<open>updatePackageJson\<close> does
  not check \<^verbatim>\<open>name\<close>. For a manifest without one it uses the key \<^verbatim>\<open>"undefined"\<close>:
  when each dependency field is absent, \<^verbatim>\<open>null\<close> or an object, the rewrite resolves
  and writes the file, with \<^verbatim>\<open>version\<close> set to \<^verbatim>\<open>newPackageVersions["undefined"]\<close>
  when there is such a key and left as it was otherwise. In a run whose platform setter
  resolves, \<^verbatim>\<open>updatePackageJson\<close> is called for every package not named
  \<^verbatim>\<open>react-native\<close>, whatever the other calls return, and every call that resolves
  has written its file.
\<close>

theorem updatePackageJson_without_name:
  assumes "get_prop pj ''name'' = None"
    and "\<forall>f\<in>{''dependencies'', ''devDependencies''}.
           get_prop pj f = None \<or> get_prop pj f = Some JNull \<or>
           (\<exists>deps. get_prop pj f = Some (JObj deps))"
    and "r = setVersion setRN packages version skip"
  shows "(\<exists>pj' w. updatePackageJson p pj mp = Inr (pj', w) \<and>
            join_dir w = p \<and> join_file w = ''package.json'' \<and>
            (\<forall>v. get_prop mp ''undefined'' = Some v \<longrightarrow>
                 get_prop pj' ''version'' = Some (JStr v)) \<and>
            (get_prop mp ''undefined'' = None \<longrightarrow>
                 get_prop pj' ''version'' = get_prop pj ''version'')) \<and>
         (setRN (setter_version r) (setter_mapping r) = None \<longrightarrow>
            rewriter_calls r =
              map (\<lambda>pkg. (pkg, updatePackageJson (path pkg) (packageJson pkg) (setter_mapping r)))
                  (filter (\<lambda>pkg. name pkg \<noteq> ''react-native'') (Object_values packages))) \<and>
         (\<forall>pkg pj' w. (pkg, Inr (pj', w)) \<in> set (rewriter_calls r) \<longrightarrow> w \<in> set (writes r))"
proof (intro conjI)
  from assms(1) have "get_prop pj ''name'' = None \<or> (\<exists>n. get_prop pj ''name'' = Some (JStr n))"
    by simp
  from updatePackageJson_resolves[OF this assms(2)] obtain pj' w where
    u: "updatePackageJson p pj mp = Inr (pj', w)" by blast
  have k: "packageName_key pj = Inr ''undefined''"
    using assms(1) by (simp add: packageName_key_def)
  have h: "has_prop ''undefined'' mp \<longleftrightarrow> get_prop mp ''undefined'' \<noteq> None"
    by (simp add: has_prop_def Object_prototype_names_def get_prop_None_iff)
  from updatePackageJson_stages[OF u] have "join_dir w = p" "join_file w = ''package.json''"
    by auto
  moreover from version_after[OF u] k h
  have "\<forall>v. get_prop mp ''undefined'' = Some v \<longrightarrow> get_prop pj' ''version'' = Some (JStr v)"
    "get_prop mp ''undefined'' = None \<longrightarrow> get_prop pj' ''version'' = get_prop pj ''version''"
    by (auto simp: read_version_own)
  ultimately
  have "updatePackageJson p pj mp = Inr (pj', w) \<and>
            join_dir w = p \<and> join_file w = ''package.json'' \<and>
            (\<forall>v. get_prop mp ''undefined'' = Some v \<longrightarrow>
                 get_prop pj' ''version'' = Some (JStr v)) \<and>
            (get_prop mp ''undefined'' = None \<longrightarrow>
                 get_prop pj' ''version'' = get_prop pj ''version'')"
    using u by simp
  then
  show "\<exists>pj' w. updatePackageJson p pj mp = Inr (pj', w) \<and>
            join_dir w = p \<and> join_file w = ''package.json'' \<and>
            (\<forall>v. get_prop mp ''undefined'' = Some v \<longrightarrow>
                 get_prop pj' ''version'' = Some (JStr v)) \<and>
            (get_prop mp ''undefined'' = None \<longrightarrow>
                 get_prop pj' ''version'' = get_prop pj ''version'')"
    by (intro exI)
next
  show "setRN (setter_version r) (setter_mapping r) = None \<longrightarrow>
            rewriter_calls r =
              map (\<lambda>pkg. (pkg, updatePackageJson (path pkg) (packageJson pkg) (setter_mapping r)))
                  (filter (\<lambda>pkg. name pkg \<noteq> ''react-native'') (Object_values packages))"
    unfolding assms(3) setter_mapping_setVersion setter_version_setVersion rewriter_calls_setVersion
    by simp
next
  show "\<forall>pkg pj' w. (pkg, Inr (pj', w)) \<in> set (rewriter_calls r) \<longrightarrow> w \<in> set (writes r)"
    by (auto simp: writes_iff)
qed

theorem updatePackageJson_without_name_witness:
  "get_prop nameless_manifest ''name'' = None \<and>
   get_prop nameless_manifest ''dependencies'' = None \<and>
   get_prop nameless_manifest ''devDependencies'' = Some (JObj [(''tool-a'', JStr ''0.1.0'')]) \<and>
   get_prop example_versions ''undefined'' = None \<and>
   (\<exists>pj' w. updatePackageJson ''/repo/packages/nameless'' nameless_manifest example_versions =
               Inr (pj', w) \<and>
            get_prop pj' ''version'' = Some (JStr ''0.1.0'')) \<and>
   setter_resolves ''0.2.0'' [(''broken'', ''0.2.0''), (''tool-a'', ''0.2.0'')] = None \<and>
   rewriter_calls (setVersion setter_resolves broken_packages ''0.2.0'' False) =
     [(broken_package, Inl TypeError), (tool_a_package, Inr (tool_a_rewritten, tool_a_write))] \<and>
   tool_a_write \<in> set (writes (setVersion setter_resolves broken_packages ''0.2.0'' False))"
proof -
  let ?r = "setVersion setter_resolves broken_packages ''0.2.0'' False"
  have n: "get_prop nameless_manifest ''name'' = None"
    by (simp add: get_prop_def nameless_manifest_def)
  have d: "get_prop nameless_manifest ''dependencies'' = None"
    "get_prop nameless_manifest ''devDependencies'' = Some (JObj [(''tool-a'', JStr ''0.1.0'')])"
    by (simp_all add: get_prop_def nameless_manifest_def)
  then have f: "\<forall>f\<in>{''dependencies'', ''devDependencies''}.
           get_prop nameless_manifest f = None \<or> get_prop nameless_manifest f = Some JNull \<or>
           (\<exists>deps. get_prop nameless_manifest f = Some (JObj deps))" by simp
  have u: "get_prop example_versions ''undefined'' = None"
    by (simp add: get_prop_def example_versions_def)
  have v: "get_prop nameless_manifest ''version'' = Some (JStr ''0.1.0'')"
    by (simp add: get_prop_def nameless_manifest_def)
  have s: "setter_resolves ''0.2.0'' [(''broken'', ''0.2.0''), (''tool-a'', ''0.2.0'')] = None"
    by (simp add: setter_resolves_def)
  have c: "(tool_a_package, Inr (tool_a_rewritten, tool_a_write)) \<in> set (rewriter_calls ?r)"
    by (simp add: broken_run)
  note t = updatePackageJson_without_name[OF n f refl, where p = "''/repo/packages/nameless''"
      and mp = example_versions
      and setRN = setter_resolves and packages = broken_packages and version = "''0.2.0''"
      and skip = False]
  from t u v have 1: "\<exists>pj' w. updatePackageJson ''/repo/packages/nameless'' nameless_manifest example_versions =
               Inr (pj', w) \<and> get_prop pj' ''version'' = Some (JStr ''0.1.0'')"
    by auto
  from t c have 2: "tool_a_write \<in> set (writes ?r)" by blast
  have 3: "rewriter_calls ?r =
     [(broken_package, Inl TypeError), (tool_a_package, Inr (tool_a_rewritten, tool_a_write))]"
    by (simp add: broken_run)
  from n d u 1 s 3 2 show ?thesis by blast
qed

text \<open>The manifest without \<^verbatim>\<open>name\<close> is rewritten and written, no error is
  returned.\<close>

theorem updatePackageJson_without_name_writes:
  "get_prop nameless_manifest ''name'' = None \<and>
   updatePackageJson ''/repo/packages/nameless'' nameless_manifest example_versions =
     Inr (nameless_rewritten,
          \<lparr>join_dir = ''/repo/packages/nameless'', join_file = ''package.json'',
           data = written_text nameless_rewritten\<rparr>)"
  by code_simp

section \<open>What the driver passes on\<close>

text \<open>
  C10 (the mapping is constant). In every call of \<^verbatim>\<open>setVersion\<close> the mapping given to
  the platform setter maps every package name of the registry, \<^verbatim>\<open>react-native\<close>
  among them, to the requested version, and it has no other keys. It is the same mapping
  for both values of the skip flag, and each call of \<^verbatim>\<open>updatePackageJson\<close> receives
  it. The flag decides the version argument of the platform setter only.
\<close>

theorem setVersion_mapping_constant:
  assumes "r = setVersion setRN packages version skip"
  shows "(\<forall>packageName\<in>set (Object_keys packages).
            get_prop (setter_mapping r) packageName = Some version) \<and>
         set (Object_keys (setter_mapping r)) = set (Object_keys packages) \<and>
         setter_mapping r = setter_mapping (setVersion setRN packages version (\<not> skip)) \<and>
         setter_version r = (if skip then ''1000.0.0'' else version) \<and>
         rewriter_calls r =
           map (\<lambda>pkg. (pkg, updatePackageJson (path pkg) (packageJson pkg) (setter_mapping r)))
               (map fst (rewriter_calls r))"
proof -
  have "rewriter_calls r =
           map (\<lambda>pkg. (pkg, updatePackageJson (path pkg) (packageJson pkg) (setter_mapping r)))
               (map fst (rewriter_calls r))"
    unfolding assms setter_mapping_setVersion rewriter_calls_setVersion
    by (simp split: option.splits add: comp_def)
  then show ?thesis
    unfolding assms
    by (simp add: setter_mapping_setVersion setter_version_setVersion
        fromEntries_const_get fromEntries_const_keys)
qed

theorem setVersion_mapping_constant_witness:
  "''react-native'' \<in> set (Object_keys example_packages) \<and>
   get_prop (setter_mapping (setVersion setter_resolves example_packages ''0.2.0'' True))
     ''react-native'' = Some ''0.2.0'' \<and>
   setter_version (setVersion setter_resolves example_packages ''0.2.0'' True) = ''1000.0.0''"
proof -
  have k: "''react-native'' \<in> set (Object_keys example_packages)"
    by (simp add: Object_keys_def example_packages_def)
  from setVersion_mapping_constant[where setRN = setter_resolves and packages = example_packages
      and version = "''0.2.0''" and skip = True, OF refl] k
  show ?thesis by (elim conjE) (simp del: set_map)
qed

text \<open>
  C1 (sentinel), as the script has it. With the skip flag set, \<^verbatim>\<open>1000.0.0\<close> is the
  version argument given to the platform setter; the mapping assigns the requested
  version to every package name of the registry, \<^verbatim>\<open>react-native\<close> included.
\<close>

theorem setVersion_sentinel_argument:
  assumes "r = setVersion setRN packages version True"
  shows "setter_version r = ''1000.0.0'' \<and>
         (\<forall>packageName\<in>set (Object_keys packages).
            get_prop (setter_mapping r) packageName = Some version)"
  unfolding assms
  by (simp add: setter_mapping_setVersion setter_version_setVersion fromEntries_const_get)

theorem setVersion_sentinel_argument_witness:
  "''core'' \<in> set (Object_keys example_packages) \<and>
   setter_version (setVersion setter_resolves example_packages ''0.2.0'' True) = ''1000.0.0'' \<and>
   get_prop (setter_mapping (setVersion setter_resolves example_packages ''0.2.0'' True))
     ''core'' = Some ''0.2.0''"
proof -
  have k: "''core'' \<in> set (Object_keys example_packages)"
    by (simp add: Object_keys_def example_packages_def)
  with setVersion_sentinel_argument[where setRN = setter_resolves and packages = example_packages
      and version = "''0.2.0''", OF refl]
  show ?thesis by blast
qed

text \<open>With the skip flag set and \<^verbatim>\<open>0.2.0\<close> requested, the mapping has \<^verbatim>\<open>0.2.0\<close>
  for \<^verbatim>\<open>react-native\<close>, not \<^verbatim>\<open>1000.0.0\<close>.\<close>

theorem setVersion_mapping_no_sentinel:
  "get_prop (setter_mapping (setVersion setter_resolves example_packages ''0.2.0'' True))
     ''react-native'' = Some ''0.2.0'' \<and>
   get_prop (setter_mapping (setVersion setter_resolves example_packages ''0.2.0'' True))
     ''react-native'' \<noteq> Some ''1000.0.0''"
  by code_simp

text \<open>
  C9 (the distinguished package is left out). No call of \<^verbatim>\<open>updatePackageJson\<close> in a
  run is for a package named \<^verbatim>\<open>react-native\<close>. When the platform setter resolves,
  the calls are for the other packages of the registry, each once, in registry order.
  Every file the run writes is \<^verbatim>\<open>package.json\<close> in the directory of a package that
  is not named \<^verbatim>\<open>react-native\<close>; so when no other package shares the directory of
  \<^verbatim>\<open>react-native\<close>, the run writes nothing there.
\<close>

theorem setVersion_excludes_react_native:
  assumes "r = setVersion setRN packages version skip"
  shows "(\<forall>(pkg, res)\<in>set (rewriter_calls r). name pkg \<noteq> ''react-native'') \<and>
         (setRN (setter_version r) (setter_mapping r) = None \<longrightarrow>
            map fst (rewriter_calls r) =
              filter (\<lambda>pkg. name pkg \<noteq> ''react-native'') (Object_values packages)) \<and>
         (\<forall>w\<in>set (writes r). \<exists>pkg\<in>set (Object_values packages).
            name pkg \<noteq> ''react-native'' \<and> join_dir w = path pkg \<and> join_file w = ''package.json'') \<and>
         (\<forall>rn\<in>set (Object_values packages).
            name rn = ''react-native'' \<longrightarrow>
            (\<forall>pkg\<in>set (Object_values packages).
               name pkg \<noteq> ''react-native'' \<longrightarrow> path pkg \<noteq> path rn) \<longrightarrow>
            (\<forall>w\<in>set (writes r). join_dir w \<noteq> path rn))"
proof (intro conjI)
  show "\<forall>(pkg, res)\<in>set (rewriter_calls r). name pkg \<noteq> ''react-native''"
    unfolding assms rewriter_calls_setVersion by (auto split: option.splits)
  show "setRN (setter_version r) (setter_mapping r) = None \<longrightarrow>
            map fst (rewriter_calls r) =
              filter (\<lambda>pkg. name pkg \<noteq> ''react-native'') (Object_values packages)"
    unfolding assms by (simp add: setVersion_def Let_def comp_def split: option.splits)
  show dirs: "\<forall>w\<in>set (writes r). \<exists>pkg\<in>set (Object_values packages).
            name pkg \<noteq> ''react-native'' \<and> join_dir w = path pkg \<and> join_file w = ''package.json''"
  proof
    fix w assume "w \<in> set (writes r)"
    then obtain pkg pj where c: "(pkg, Inr (pj, w)) \<in> set (rewriter_calls r)"
      by (auto simp: writes_iff)
    then have "pkg \<in> set (Object_values packages)" "name pkg \<noteq> ''react-native''"
      and u: "\<exists>mp. updatePackageJson (path pkg) (packageJson pkg) mp = Inr (pj, w)"
      unfolding assms rewriter_calls_setVersion by (auto split: option.splits)
    moreover from u obtain mp where "updatePackageJson (path pkg) (packageJson pkg) mp = Inr (pj, w)" by blast
    from updatePackageJson_stages[OF this] have "join_dir w = path pkg \<and> join_file w = ''package.json''"
      by auto
    ultimately show "\<exists>pkg\<in>set (Object_values packages).
            name pkg \<noteq> ''react-native'' \<and> join_dir w = path pkg \<and> join_file w = ''package.json''"
      by blast
  qed
  show "\<forall>rn\<in>set (Object_values packages).
            name rn = ''react-native'' \<longrightarrow>
            (\<forall>pkg\<in>set (Object_values packages).
               name pkg \<noteq> ''react-native'' \<longrightarrow> path pkg \<noteq> path rn) \<longrightarrow>
            (\<forall>w\<in>set (writes r). join_dir w \<noteq> path rn)"
  proof (intro ballI impI)
    fix rn w
    assume other: "\<forall>pkg\<in>set (Object_values packages).
               name pkg \<noteq> ''react-native'' \<longrightarrow> path pkg \<noteq> path rn"
      and "w \<in> set (writes r)"
    with dirs obtain pkg where "pkg \<in> set (Object_values packages)"
      "name pkg \<noteq> ''react-native''" "join_dir w = path pkg" by blast
    with other show "join_dir w \<noteq> path rn" by simp
  qed
qed

theorem setVersion_excludes_react_native_witness:
  "(core_package, Inr (core_rewritten, core_write))
     \<in> set (rewriter_calls (setVersion setter_resolves example_packages ''0.2.0'' True)) \<and>
   name core_package \<noteq> ''react-native'' \<and>
   setter_resolves ''1000.0.0'' example_versions = None \<and>
   map fst (rewriter_calls (setVersion setter_resolves example_packages ''0.2.0'' True)) =
     [core_package, tool_a_package] \<and>
   core_write \<in> set (writes (setVersion setter_resolves example_packages ''0.2.0'' True)) \<and>
   (\<exists>pkg\<in>set (Object_values example_packages).
      name pkg \<noteq> ''react-native'' \<and> join_dir core_write = path pkg \<and>
      join_file core_write = ''package.json'') \<and>
   react_native_package \<in> set (Object_values example_packages) \<and>
   name react_native_package = ''react-native'' \<and>
   path core_package \<noteq> path react_native_package \<and>
   path tool_a_package \<noteq> path react_native_package \<and>
   join_dir core_write \<noteq> path react_native_package"
proof -
  let ?r = "setVersion setter_resolves example_packages ''0.2.0'' True"
  note t = setVersion_excludes_react_native[where setRN = setter_resolves and packages = example_packages
      and version = "''0.2.0''" and skip = True, OF refl]
  have c: "(core_package, Inr (core_rewritten, core_write)) \<in> set (rewriter_calls ?r)"
    by (simp add: example_run)
  have w: "core_write \<in> set (writes ?r)"
    by (simp add: writes_def example_run)
  have s: "setter_resolves ''1000.0.0'' example_versions = None"
    by (simp add: setter_resolves_def)
  have v: "filter (\<lambda>pkg. name pkg \<noteq> ''react-native'') (Object_values example_packages) =
      [core_package, tool_a_package]"
    by (simp add: Object_values_def example_packages_def core_package_def
        react_native_package_def tool_a_package_def)
  from t c have 1: "name core_package \<noteq> ''react-native''" by blast
  from t s v have 2: "map fst (rewriter_calls ?r) = [core_package, tool_a_package]"
    by (simp add: example_run)
  from t w have 3: "\<exists>pkg\<in>set (Object_values example_packages).
      name pkg \<noteq> ''react-native'' \<and> join_dir core_write = path pkg \<and>
      join_file core_write = ''package.json''" by blast
  have rn: "react_native_package \<in> set (Object_values example_packages)"
    "name react_native_package = ''react-native''"
    by (simp_all add: Object_values_def example_packages_def react_native_package_def)
  have u: "\<forall>pkg\<in>set (Object_values example_packages).
      name pkg \<noteq> ''react-native'' \<longrightarrow> path pkg \<noteq> path react_native_package"
    by (simp add: Object_values_def example_packages_def core_package_def
        react_native_package_def tool_a_package_def)
  have p: "path core_package \<noteq> path react_native_package"
    "path tool_a_package \<noteq> path react_native_package"
    by (simp_all add: core_package_def react_native_package_def tool_a_package_def)
  from t rn u w have 4: "join_dir core_write \<noteq> path react_native_package" by blast
  from c 1 s 2 w 3 rn p 4 show ?thesis by blast
qed

section \<open>Running twice\<close>

text \<open>
  C6 (idempotence). Let \<open>r\<close> be a run of \<^verbatim>\<open>setVersion\<close> on manifests that the
  registry parsed, and let the registry read the files back after it. A second run with
  the same version and flag gives the platform setter the same arguments, makes the same
  calls of \<^verbatim>\<open>updatePackageJson\<close> with the same rejections and the same writes, so
  it writes the same files with the same text as the first; when no rewritten manifest
  holds a value that is not a JSON value, the manifests in memory after the second run
  are those after the first as well. For one manifest and any mapping: the rewrite of
  the manifest read back from a rewritten file writes the text that is in the file. And
  when the manifest already holds, under \<^verbatim>\<open>version\<close> and under every key of a
  dependency field that the rewriter assigns to, the value that
  \<^verbatim>\<open>newPackageVersions\<close> answers, the rewrite leaves the manifest as it is and writes
  its serialization.
\<close>

theorem setVersion_idempotent:
  assumes "r = setVersion setRN packages version skip"
    and "updatePackageJson p pj mp = Inr (pj', w)"
  shows "((\<forall>pkg\<in>set (Object_values packages). is_json (JObj (packageJson pkg))) \<longrightarrow>
            writes (setVersion setRN (read_back r packages) version skip) = writes r \<and>
            map (\<lambda>(pkg, res). map_sum id snd res)
                (rewriter_calls (setVersion setRN (read_back r packages) version skip)) =
              map (\<lambda>(pkg, res). map_sum id snd res) (rewriter_calls r) \<and>
            rejected (setVersion setRN (read_back r packages) version skip) = rejected r) \<and>
         setter_version (setVersion setRN (read_back r packages) version skip) = setter_version r \<and>
         setter_mapping (setVersion setRN (read_back r packages) version skip) = setter_mapping r \<and>
         ((\<forall>pkg pj' w. (pkg, Inr (pj', w)) \<in> set (rewriter_calls r) \<longrightarrow> is_json (JObj pj')) \<longrightarrow>
            map snd (rewriter_calls (setVersion setRN (read_back r packages) version skip)) =
              map snd (rewriter_calls r) \<and>
            writes (setVersion setRN (read_back r packages) version skip) = writes r) \<and>
         (is_json (JObj pj) \<longrightarrow>
            (\<exists>pj''. updatePackageJson p (reparse_props pj') mp = Inr (pj'', w))) \<and>
         ((\<forall>n. packageName_key pj = Inr n \<and> has_prop n mp \<longrightarrow>
                get_prop pj ''version'' = Some (read_version mp n)) \<and>
          (\<forall>f\<in>{''dependencies'', ''devDependencies''}. \<forall>deps k.
                get_prop pj f = Some (JObj deps) \<and> k \<in> set (Object_keys mp) \<and> has_prop k deps \<longrightarrow>
                get_prop deps k = Some (read_version mp k)) \<longrightarrow>
            pj' = pj \<and> data w = written_text pj)"
proof (intro conjI impI)
  assume j: "\<forall>pkg\<in>set (Object_values packages). is_json (JObj (packageJson pkg))"
  note o = setVersion_read_back[OF assms(1) j]
  show "map (\<lambda>(pkg, res). map_sum id snd res)
                (rewriter_calls (setVersion setRN (read_back r packages) version skip)) =
              map (\<lambda>(pkg, res). map_sum id snd res) (rewriter_calls r)"
    by (rule o)
  show "writes (setVersion setRN (read_back r packages) version skip) = writes r"
    unfolding writes_outcome o ..
  from o show "rejected (setVersion setRN (read_back r packages) version skip) = rejected r"
    unfolding assms(1) by (rule setVersion_read_back_rejected)
next
  show "setter_version (setVersion setRN (read_back r packages) version skip) = setter_version r"
    "setter_mapping (setVersion setRN (read_back r packages) version skip) = setter_mapping r"
    unfolding assms(1) by (simp_all add: setVersion_read_back_setter)
next
  assume "\<forall>pkg pj' w. (pkg, Inr (pj', w)) \<in> set (rewriter_calls r) \<longrightarrow> is_json (JObj pj')"
  note c = setVersion_read_back_json[OF assms(1) this]
  show "map snd (rewriter_calls (setVersion setRN (read_back r packages) version skip)) =
              map snd (rewriter_calls r)"
    by (rule c)
  show "writes (setVersion setRN (read_back r packages) version skip) = writes r"
    unfolding writes_results c ..
next
  assume "is_json (JObj pj)"
  with assms(2) show "\<exists>pj''. updatePackageJson p (reparse_props pj') mp = Inr (pj'', w)"
    by (rule updatePackageJson_read_back)
next
  assume h: "(\<forall>n. packageName_key pj = Inr n \<and> has_prop n mp \<longrightarrow>
                get_prop pj ''version'' = Some (read_version mp n)) \<and>
          (\<forall>f\<in>{''dependencies'', ''devDependencies''}. \<forall>deps k.
                get_prop pj f = Some (JObj deps) \<and> k \<in> set (Object_keys mp) \<and> has_prop k deps \<longrightarrow>
                get_prop deps k = Some (read_version mp k))"
  from updatePackageJson_fixed[OF assms(2) conjunct1[OF h] conjunct2[OF h]]
  show e: "pj' = pj" .
  from updatePackageJson_stages[OF assms(2)] e show "data w = written_text pj" by auto
qed

theorem setVersion_idempotent_witness:
  "is_json (JObj core_manifest) \<and> is_json (JObj react_native_manifest) \<and>
   is_json (JObj tool_a_manifest) \<and> is_json (JObj constructor_manifest) \<and>
   writes (setVersion setter_resolves example_packages ''0.2.0'' True) =
     [core_write, tool_a_write] \<and>
   writes (setVersion setter_resolves
            (read_back (setVersion setter_resolves example_packages ''0.2.0'' True) example_packages)
            ''0.2.0'' True) = [core_write, tool_a_write] \<and>
   is_json (JObj core_rewritten) \<and> is_json (JObj tool_a_rewritten) \<and>
   map snd (rewriter_calls (setVersion setter_resolves
            (read_back (setVersion setter_resolves example_packages ''0.2.0'' True) example_packages)
            ''0.2.0'' True)) =
     [Inr (core_rewritten, core_write), Inr (tool_a_rewritten, tool_a_write)] \<and>
   updatePackageJson ''/repo/packages/constructor'' constructor_manifest tool_a_only =
     Inr (constructor_rewritten, constructor_write) \<and>
   reparse_props constructor_rewritten = [(''name'', JStr ''constructor'')] \<and>
   (\<exists>pj''. updatePackageJson ''/repo/packages/constructor'' [(''name'', JStr ''constructor'')]
              tool_a_only = Inr (pj'', constructor_write)) \<and>
   updatePackageJson ''/repo/packages/core'' core_rewritten example_versions =
     Inr (core_rewritten, core_write) \<and>
   packageName_key core_rewritten = Inr ''core'' \<and>
   has_prop ''core'' example_versions \<and>
   get_prop core_rewritten ''version'' = Some (read_version example_versions ''core'') \<and>
   get_prop core_rewritten ''devDependencies'' = Some (JObj [(''tool-a'', JStr ''0.2.0'')]) \<and>
   ''tool-a'' \<in> set (Object_keys example_versions) \<and>
   has_prop ''tool-a'' [(''tool-a'', JStr ''0.2.0'')] \<and>
   get_prop [(''tool-a'', JStr ''0.2.0'')] ''tool-a'' = Some (read_version example_versions ''tool-a'') \<and>
   data core_write = written_text core_rewritten"
proof -
  let ?r = "setVersion setter_resolves example_packages ''0.2.0'' True"
  let ?r2 = "setVersion setter_resolves (read_back ?r example_packages) ''0.2.0'' True"
  have j: "is_json (JObj core_manifest)" "is_json (JObj react_native_manifest)"
    "is_json (JObj tool_a_manifest)" "is_json (JObj constructor_manifest)"
    "is_json (JObj core_rewritten)" "is_json (JObj tool_a_rewritten)"
    by (simp_all add: core_manifest_def react_native_manifest_def tool_a_manifest_def
        constructor_manifest_def core_rewritten_def tool_a_rewritten_def)
  have registry: "\<forall>pkg\<in>set (Object_values example_packages). is_json (JObj (packageJson pkg))"
    using j by (simp add: Object_values_def example_packages_def core_package_def
        react_native_package_def tool_a_package_def)
  have results: "\<forall>pkg pj' w. (pkg, Inr (pj', w)) \<in> set (rewriter_calls ?r) \<longrightarrow> is_json (JObj pj')"
    using j by (auto simp: example_run)
  have w: "writes ?r = [core_write, tool_a_write]"
    by (simp add: writes_def example_run)
  have c: "map snd (rewriter_calls ?r) =
      [Inr (core_rewritten, core_write), Inr (tool_a_rewritten, tool_a_write)]"
    by (simp add: example_run)
  have n: "packageName_key core_rewritten = Inr ''core''"
    by (simp add: packageName_key_def get_prop_def core_rewritten_def)
  have hc: "has_prop ''core'' example_versions"
    and kt: "''tool-a'' \<in> set (Object_keys example_versions)"
    by (simp_all add: has_prop_def Object_keys_def example_versions_def)
  have ht: "has_prop ''tool-a'' [(''tool-a'', JStr ''0.2.0'')]"
    by (simp add: has_prop_def Object_keys_def)
  have rc: "read_version example_versions ''core'' = JStr ''0.2.0''"
    and rt: "read_version example_versions ''tool-a'' = JStr ''0.2.0''"
    by (simp_all add: read_version_def get_prop_def example_versions_def)
  have v: "get_prop core_rewritten ''version'' = Some (read_version example_versions ''core'')"
    and d: "get_prop core_rewritten ''dependencies'' = Some (JObj [(''left-pad'', JStr ''^1.3.0'')])"
    and dd: "get_prop core_rewritten ''devDependencies'' = Some (JObj [(''tool-a'', JStr ''0.2.0'')])"
    unfolding rc by (simp_all add: get_prop_def core_rewritten_def)
  have gt: "get_prop [(''tool-a'', JStr ''0.2.0'')] ''tool-a'' =
      Some (read_version example_versions ''tool-a'')"
    unfolding rt by (simp add: get_prop_def)
  have own: "\<forall>n. packageName_key core_rewritten = Inr n \<and> has_prop n example_versions \<longrightarrow>
           get_prop core_rewritten ''version'' = Some (read_version example_versions n)"
    using n v by simp
  have keys: "Object_keys example_versions = [''core'', ''react-native'', ''tool-a'']"
    by (simp add: Object_keys_def example_versions_def)
  have deps: "\<forall>f\<in>{''dependencies'', ''devDependencies''}. \<forall>deps k.
           get_prop core_rewritten f = Some (JObj deps) \<and> k \<in> set (Object_keys example_versions) \<and>
           has_prop k deps \<longrightarrow> get_prop deps k = Some (read_version example_versions k)"
    using d dd rt unfolding keys
    by (auto simp: has_prop_def Object_keys_def Object_prototype_names_def get_prop_def)
  have reread: "reparse_props constructor_rewritten = [(''name'', JStr ''constructor'')]"
    by code_simp
  note run = setVersion_idempotent[where setRN = setter_resolves and packages = example_packages
      and version = "''0.2.0''" and skip = True, OF refl core_rewritten_run]
  note again = setVersion_idempotent[where setRN = setter_resolves and packages = example_packages
      and version = "''0.2.0''" and skip = True, OF refl constructor_run]
  from run registry w have 1: "writes ?r2 = [core_write, tool_a_write]" by simp
  from run results c have 2: "map snd (rewriter_calls ?r2) =
      [Inr (core_rewritten, core_write), Inr (tool_a_rewritten, tool_a_write)]" by simp
  from again j(4) reread have 3: "\<exists>pj''. updatePackageJson ''/repo/packages/constructor''
      [(''name'', JStr ''constructor'')] tool_a_only = Inr (pj'', constructor_write)" by simp
  from run own deps have 4: "data core_write = written_text core_rewritten" by blast
  from j w 1 2 constructor_run reread 3 core_rewritten_run n hc v dd kt ht gt 4
  show ?thesis by simp
qed

end
